theory Spec2Isabelle
  imports Complex_Main "HOL-Library.Word" "HOL-Library.Char_ord" "HOL-Library.List_Lexorder"
begin

unbundle bit_operations_syntax

section \<open>Data model\<close>

text \<open>
  Values of Go's \<^verbatim>\<open>interface{}\<close> as \<^verbatim>\<open>encoding/json\<close> produces them. A number keeps
  its literal (as \<^verbatim>\<open>json.Number\<close> does), so no floating point arithmetic is involved.
  An object is an association list.
\<close>

datatype jvalue =
    JNull
  | JBool bool
  | JNumber string
  | JString string
  | JArray "jvalue list"
  | JObject "(string \<times> jvalue) list"

text \<open>
  The SQS flavoured event (\<^verbatim>\<open>sqs.Event\<close>). Go's \<^verbatim>\<open>int\<close> is taken at 64 bits.
  A nil map and a nil \<^verbatim>\<open>*string\<close> are \<open>None\<close>. The back pointer to the provider is
  only used by \<^verbatim>\<open>UpdateVisibilityTimeout\<close> and is left out.
\<close>

record Event =
  name :: string
  data :: "(string \<times> jvalue) list option"
  receiptHandle :: string
  deduplicationID :: "string option"
  retryCount :: "64 word"

text \<open>Errors are values.\<close>

datatype error = Errorf string | SyntaxError | UnmarshalTypeError | NumError | RemoteError string

section \<open>Backoff\<close>

text \<open>
  \<^verbatim>\<open>math.Pow(2, y)\<close> for the integral \<open>y\<close> that \<^verbatim>\<open>float64(e.retryCount+1)\<close> yields. The
  float64 result is the exact power of two for \<open>-1074 \<le> y \<le> 1023\<close>, \<open>+Inf\<close> above and
  \<open>0\<close> below; after \<^verbatim>\<open>math.Min(_, 900)\<close> and the truncation of \<^verbatim>\<open>int64(_)\<close> the three
  cases agree with the exact real power, which is what is written here. The conversion
  \<^verbatim>\<open>float64(n)\<close> is exact below \<open>2^53\<close> and monotone, so it does not change the result.
\<close>

definition math_Pow2 :: "int \<Rightarrow> real" where
  "math_Pow2 y = (if 0 \<le> y then 2 ^ nat y else 1 / 2 ^ nat (- y))"

definition DelaySeconds :: "'a Event_scheme \<Rightarrow> 64 word" where
  "DelaySeconds e =
     word_of_int \<lfloor>min (math_Pow2 (sint (retryCount e + 1))) (15 * 60)\<rfloor>"


section \<open>JSON encoding\<close>

text \<open>
  \<^verbatim>\<open>json.Marshal\<close> as the event codec uses it. A string is written byte by byte: the
  quote and the backslash are escaped, line feed, carriage return and tab have short
  escapes, the other control bytes and the HTML bytes \<^verbatim>\<open><\<close>, \<^verbatim>\<open>>\<close>, \<^verbatim>\<open>&\<close> become
  \<^verbatim>\<open>\u00XX\<close>. Bytes from \<open>0x80\<close> on are copied (Go writes ill-formed UTF-8 as
  \<^verbatim>\<open>\ufffd\<close> and the two line separators U+2028 and U+2029 as escapes; all of these
  decode to what the decoder of a string yields for the same bytes). A map is written
  in the order of its association list, which stands for Go's sorted key order.
\<close>

definition dq :: char where "dq = CHR 0x22"
definition bs :: char where "bs = CHR 0x5C"

definition hex :: "nat \<Rightarrow> char" where
  "hex n = ''0123456789abcdef'' ! n"

definition encodeChar :: "char \<Rightarrow> string" where
  "encodeChar b =
     (if b = bs \<or> b = dq then [bs, b]
      else if b = CHR 0x0A then [bs, CHR ''n'']
      else if b = CHR 0x0D then [bs, CHR ''r'']
      else if b = CHR 0x09 then [bs, CHR ''t'']
      else if of_char b < (0x20::nat) \<or> b = CHR ''<'' \<or> b = CHR ''>'' \<or> b = CHR ''&''
        then [bs, CHR ''u'', CHR ''0'', CHR ''0'',
              hex (of_char b div 16), hex (of_char b mod 16)]
      else [b])"

definition encodeString :: "string \<Rightarrow> string" where
  "encodeString s = dq # concat (map encodeChar s) @ [dq]"

fun commaSep :: "string list \<Rightarrow> string" where
  "commaSep [] = []"
| "commaSep [x] = x"
| "commaSep (x # y # ys) = x @ CHR '','' # commaSep (y # ys)"

fun marshalValue :: "jvalue \<Rightarrow> string" where
  "marshalValue JNull = ''null''"
| "marshalValue (JBool b) = (if b then ''true'' else ''false'')"
| "marshalValue (JNumber n) = n"
| "marshalValue (JString s) = encodeString s"
| "marshalValue (JArray vs) = ''['' @ commaSep (map marshalValue vs) @ '']''"
| "marshalValue (JObject kvs) =
     ''{'' @ commaSep (map (\<lambda>(k, v). encodeString k @ '':'' @ marshalValue v) kvs) @ ''}''"

definition marshalMap :: "(string \<times> jvalue) list option \<Rightarrow> string" where
  "marshalMap d = (case d of None \<Rightarrow> ''null'' | Some kvs \<Rightarrow> marshalValue (JObject kvs))"

record encodedEvent =
  Name :: string
  Data :: "(string \<times> jvalue) list option"

record encodedMessage =
  Message :: string

definition marshal_encodedEvent :: "encodedEvent \<Rightarrow> string" where
  \<open>marshal_encodedEvent evt =
     ''{"name":'' @ encodeString (Name evt) @ '',"data":'' @ marshalMap (Data evt) @ ''}''\<close>

definition marshal_encodedMessage :: "encodedMessage \<Rightarrow> string" where
  \<open>marshal_encodedMessage msg = ''{"Message":'' @ encodeString (Message msg) @ ''}''\<close>

definition EncodeEvent :: "'a Event_scheme \<Rightarrow> string" where
  "EncodeEvent e =
     (let evt = \<lparr>Name = name e, Data = data e\<rparr>;
          bytes = marshal_encodedEvent evt;
          msg = \<lparr>Message = bytes\<rparr>
      in marshal_encodedMessage msg)"

text \<open>The message body of \<^verbatim>\<open>TestEventDecode\<close> and \<^verbatim>\<open>TestEventEncode\<close>.\<close>

definition test_body :: string where
  \<open>test_body = ''{"Message":"{'' @ [bs] @ ''"name'' @ [bs] @ ''":'' @ [bs] @ ''"Domain''
     @ [bs, bs, bs, bs] @ ''Event'' @ [bs] @ ''",'' @ [bs] @ ''"data'' @ [bs] @ ''":{'' @ [bs]
     @ ''"occurredOn'' @ [bs] @ ''":'' @ [bs] @ ''"2018-03-08 11:11:11'' @ [bs] @ ''"}}"}''\<close>

section \<open>JSON decoding\<close>

text \<open>
  \<^verbatim>\<open>json.Unmarshal\<close> as the event codec uses it: the input is split into tokens, the
  tokens are read by a machine with a stack of open arrays and objects (as the scanner of
  \<^verbatim>\<open>encoding/json\<close> does), and the value is stored into the target struct. Any input
  that is not one JSON value, surrounded by optional white space, is a syntax error.

  In a string, an escape is one of the two-character escapes or \<^verbatim>\<open>\uXXXX\<close>; a pair of
  surrogate escapes is one code point and a lone surrogate is U+FFFD; control bytes
  must be escaped. Bytes from \<open>0x80\<close> on are copied (Go replaces ill-formed UTF-8 by
  U+FFFD). A number is checked against the JSON grammar and kept as its literal; the
  range check of the conversion to \<^verbatim>\<open>float64\<close> is not part of the model.
\<close>

datatype token =
    TLBrace | TRBrace | TLBracket | TRBracket | TColon | TComma
  | TString string | TNumber string | TTrue | TFalse | TNull

definition isSpace :: "char \<Rightarrow> bool" where
  "isSpace c = (c = CHR '' '' \<or> c = CHR 0x09 \<or> c = CHR 0x0A \<or> c = CHR 0x0D)"

definition isDigit :: "char \<Rightarrow> bool" where
  "isDigit c = (c \<in> set ''0123456789'')"

definition isNumChar :: "char \<Rightarrow> bool" where
  "isNumChar c = (isDigit c \<or> c \<in> set ''+-.eE'')"

definition hexVal :: "char \<Rightarrow> nat option" where
  "hexVal c =
     (if isDigit c then Some (of_char c - 48)
      else if c \<in> set ''abcdef'' then Some (of_char c - 87)
      else if c \<in> set ''ABCDEF'' then Some (of_char c - 55)
      else None)"

definition getu4 :: "string \<Rightarrow> nat option" where
  "getu4 s =
     (case s of
        b # u # h1 # h2 # h3 # h4 # rest \<Rightarrow>
          if b = bs \<and> u = CHR ''u'' then
            (case (hexVal h1, hexVal h2, hexVal h3, hexVal h4) of
               (Some a, Some b, Some c, Some d) \<Rightarrow> Some (((a * 16 + b) * 16 + c) * 16 + d)
             | _ \<Rightarrow> None)
          else None
      | _ \<Rightarrow> None)"

definition EncodeRune :: "nat \<Rightarrow> string" where
  "EncodeRune r =
     (if r < 0x80 then [char_of r]
      else if r < 0x800 then [char_of (0xC0 + r div 0x40), char_of (0x80 + r mod 0x40)]
      else if 0xD800 \<le> r \<and> r < 0xE000 then [CHR 0xEF, CHR 0xBF, CHR 0xBD]
      else if r < 0x10000 then
        [char_of (0xE0 + r div 0x1000), char_of (0x80 + r div 0x40 mod 0x40),
         char_of (0x80 + r mod 0x40)]
      else
        [char_of (0xF0 + r div 0x40000), char_of (0x80 + r div 0x1000 mod 0x40),
         char_of (0x80 + r div 0x40 mod 0x40), char_of (0x80 + r mod 0x40)])"

definition unescape :: "char \<Rightarrow> char option" where
  "unescape e =
     (if e = dq \<or> e = bs \<or> e = CHR ''/'' then Some e
      else if e = CHR ''b'' then Some (CHR 0x08)
      else if e = CHR ''f'' then Some (CHR 0x0C)
      else if e = CHR ''n'' then Some (CHR 0x0A)
      else if e = CHR ''r'' then Some (CHR 0x0D)
      else if e = CHR ''t'' then Some (CHR 0x09)
      else None)"

definition prepend :: "string \<Rightarrow> (string \<times> string) option \<Rightarrow> (string \<times> string) option" where
  "prepend p r = map_option (\<lambda>(s, rest). (p @ s, rest)) r"

fun unquote :: "string \<Rightarrow> (string \<times> string) option" where
  "unquote [] = None"
| "unquote (c # cs) =
     (if c = dq then Some ([], cs)
      else if c = bs then
        (case cs of
           [] \<Rightarrow> None
         | e # cs' \<Rightarrow>
             if e = CHR ''u'' then
               (case getu4 (c # cs) of
                  None \<Rightarrow> None
                | Some rr \<Rightarrow>
                    if 0xD800 \<le> rr \<and> rr < 0xE000 then
                      (case getu4 (drop 5 cs) of
                         Some rr1 \<Rightarrow>
                           if rr < 0xDC00 \<and> 0xDC00 \<le> rr1 \<and> rr1 < 0xE000
                           then prepend
                                  (EncodeRune (0x10000 + (rr - 0xD800) * 0x400 + (rr1 - 0xDC00)))
                                  (unquote (drop 11 cs))
                           else prepend (EncodeRune 0xFFFD) (unquote (drop 5 cs))
                       | None \<Rightarrow> prepend (EncodeRune 0xFFFD) (unquote (drop 5 cs)))
                    else prepend (EncodeRune rr) (unquote (drop 5 cs)))
             else
               (case unescape e of
                  None \<Rightarrow> None
                | Some b \<Rightarrow> prepend [b] (unquote cs')))
      else if of_char c < (0x20::nat) then None
      else prepend [c] (unquote cs))"

lemma unquote_length: "unquote xs = Some (s, rest) \<Longrightarrow> length rest < length xs"
proof (induction "length xs" arbitrary: xs s rest rule: less_induct)
  case less
  have IH: "\<And>ys a r. length ys < length xs \<Longrightarrow> unquote ys = Some (a, r) \<Longrightarrow> length r < length xs"
    using less.hyps by fastforce
  show ?case
  proof (cases xs)
    case Nil
    with less.prems show ?thesis by simp
  next
    case (Cons c cs)
    have IH': "unquote ys = Some (a, r) \<Longrightarrow> length ys \<le> length cs \<Longrightarrow> length r \<le> length cs"
      for ys a r
      using IH [of ys a r] Cons by simp
    from less.prems show ?thesis
      unfolding Cons unquote.simps
      by (auto simp: prepend_def less_Suc_eq_le split: if_splits list.splits option.splits
          dest!: IH')
  qed
qed

definition validExp :: "string \<Rightarrow> bool" where
  "validExp r =
     (case r of
        [] \<Rightarrow> True
      | c # r' \<Rightarrow>
          (c = CHR ''e'' \<or> c = CHR ''E'') \<and>
          (let ds = (case r' of
                       [] \<Rightarrow> []
                     | sg # t \<Rightarrow> if sg = CHR ''+'' \<or> sg = CHR ''-'' then t else r')
           in ds \<noteq> [] \<and> (\<forall>d \<in> set ds. isDigit d)))"

definition validFrac :: "string \<Rightarrow> bool" where
  "validFrac r =
     (case r of
        [] \<Rightarrow> True
      | c # r' \<Rightarrow>
          if c = CHR ''.''
          then takeWhile isDigit r' \<noteq> [] \<and> validExp (dropWhile isDigit r')
          else validExp r)"

definition validNumber :: "string \<Rightarrow> bool" where
  "validNumber s =
     (let s1 = (case s of [] \<Rightarrow> [] | c # r \<Rightarrow> if c = CHR ''-'' then r else s);
          ip = takeWhile isDigit s1
      in ip \<noteq> [] \<and> (hd ip = CHR ''0'' \<longrightarrow> ip = ''0'') \<and> validFrac (dropWhile isDigit s1))"

definition lexToken :: "char \<Rightarrow> string \<Rightarrow> (token \<times> string) option" where
  "lexToken c cs =
     (if c = CHR ''{'' then Some (TLBrace, cs)
      else if c = CHR ''}'' then Some (TRBrace, cs)
      else if c = CHR ''['' then Some (TLBracket, cs)
      else if c = CHR '']'' then Some (TRBracket, cs)
      else if c = CHR '':'' then Some (TColon, cs)
      else if c = CHR '','' then Some (TComma, cs)
      else if c = dq then
        (case unquote cs of
           None \<Rightarrow> None
         | Some (s, rest) \<Rightarrow> Some (TString s, rest))
      else if c = CHR ''-'' \<or> isDigit c then
        (if validNumber (c # takeWhile isNumChar cs)
         then Some (TNumber (c # takeWhile isNumChar cs), dropWhile isNumChar cs)
         else None)
      else if c = CHR ''t'' \<and> take 3 cs = ''rue'' then Some (TTrue, drop 3 cs)
      else if c = CHR ''f'' \<and> take 4 cs = ''alse'' then Some (TFalse, drop 4 cs)
      else if c = CHR ''n'' \<and> take 3 cs = ''ull'' then Some (TNull, drop 3 cs)
      else None)"

lemma lexToken_rest:
  "lexToken c cs = Some (t, rest) \<Longrightarrow>
     rest = cs \<or> (\<exists>s. unquote cs = Some (s, rest)) \<or> rest = dropWhile isNumChar cs \<or>
     rest = drop 3 cs \<or> rest = drop 4 cs"
  unfolding lexToken_def
  by (simp split: if_split_asm option.split_asm prod.split_asm)

lemma lexToken_length: "lexToken c cs = Some (t, rest) \<Longrightarrow> length rest \<le> length cs"
  using unquote_length [of cs _ rest] length_dropWhile_le [of isNumChar cs]
  by (auto dest!: lexToken_rest simp: less_imp_le)

function lex :: "string \<Rightarrow> token list option" where
  "lex [] = Some []"
| "lex (c # cs) =
     (if isSpace c then lex cs
      else case lexToken c cs of
             None \<Rightarrow> None
           | Some (t, rest) \<Rightarrow> map_option (Cons t) (lex rest))"
  by pat_completeness auto
termination
proof (relation "measure length")
  fix c cs x2 x y
  assume "lexToken c cs = Some x2" "(x, y) = x2"
  then have "length y \<le> length cs" using lexToken_length [of c cs x y] by simp
  then show "(y, c # cs) \<in> measure length" by simp
qed simp_all

declare lex.simps(2) [simp del]

datatype expect = ExpValue | ExpValueOrEnd | ExpCommaOrEnd | ExpKey | ExpKeyOrEnd | ExpColon

datatype frame =
    InArray "jvalue list"
  | InObject "(string \<times> jvalue) list" "string option"

datatype pstate = Scanning expect "frame list" | Finished jvalue

fun deliver :: "jvalue \<Rightarrow> frame list \<Rightarrow> pstate option" where
  "deliver v [] = Some (Finished v)"
| "deliver v (InArray vs # st) = Some (Scanning ExpCommaOrEnd (InArray (v # vs) # st))"
| "deliver v (InObject kvs (Some k) # st) =
     Some (Scanning ExpCommaOrEnd (InObject ((k, v) # kvs) None # st))"
| "deliver v (InObject kvs None # st) = None"

definition beginValue :: "expect \<Rightarrow> bool" where
  "beginValue e = (e = ExpValue \<or> e = ExpValueOrEnd)"

fun step :: "pstate \<Rightarrow> token \<Rightarrow> pstate option" where
  "step (Finished v) t = None"
| "step (Scanning e st) (TString s) =
     (if beginValue e then deliver (JString s) st
      else if e = ExpKey \<or> e = ExpKeyOrEnd then
        (case st of
           InObject kvs None # st' \<Rightarrow> Some (Scanning ExpColon (InObject kvs (Some s) # st'))
         | _ \<Rightarrow> None)
      else None)"
| "step (Scanning e st) (TNumber n) = (if beginValue e then deliver (JNumber n) st else None)"
| "step (Scanning e st) TTrue = (if beginValue e then deliver (JBool True) st else None)"
| "step (Scanning e st) TFalse = (if beginValue e then deliver (JBool False) st else None)"
| "step (Scanning e st) TNull = (if beginValue e then deliver JNull st else None)"
| "step (Scanning e st) TLBracket =
     (if beginValue e then Some (Scanning ExpValueOrEnd (InArray [] # st)) else None)"
| "step (Scanning e st) TLBrace =
     (if beginValue e then Some (Scanning ExpKeyOrEnd (InObject [] None # st)) else None)"
| "step (Scanning e st) TRBracket =
     (if e = ExpValueOrEnd \<or> e = ExpCommaOrEnd then
        (case st of InArray vs # st' \<Rightarrow> deliver (JArray (rev vs)) st' | _ \<Rightarrow> None)
      else None)"
| "step (Scanning e st) TRBrace =
     (if e = ExpKeyOrEnd \<or> e = ExpCommaOrEnd then
        (case st of InObject kvs None # st' \<Rightarrow> deliver (JObject (rev kvs)) st' | _ \<Rightarrow> None)
      else None)"
| "step (Scanning e st) TComma =
     (if e = ExpCommaOrEnd then
        (case st of
           InArray vs # st' \<Rightarrow> Some (Scanning ExpValue st)
         | InObject kvs k # st' \<Rightarrow> Some (Scanning ExpKey st)
         | [] \<Rightarrow> None)
      else None)"
| "step (Scanning e st) TColon = (if e = ExpColon then Some (Scanning ExpValue st) else None)"

fun run :: "pstate \<Rightarrow> token list \<Rightarrow> pstate option" where
  "run s [] = Some s"
| "run s (t # ts) = (case step s t of None \<Rightarrow> None | Some s' \<Rightarrow> run s' ts)"

definition parseJSON :: "string \<Rightarrow> jvalue option" where
  "parseJSON s =
     (case lex s of
        None \<Rightarrow> None
      | Some ts \<Rightarrow>
          (case run (Scanning ExpValue []) ts of
             Some (Finished v) \<Rightarrow> Some v
           | _ \<Rightarrow> None))"

subsection \<open>Decoding into Go values\<close>

text \<open>
  A JSON object stored into \<^verbatim>\<open>interface{}\<close> or into a map becomes a Go map: a later
  member replaces an earlier one with the same key. The map is kept as the association
  list sorted by key, the order in which \<^verbatim>\<open>json.Marshal\<close> writes it. Stored into a struct,
  the members are taken in input order; a key selects a field when it equals the field's
  JSON name up to the case of ASCII letters (Go also folds the two non-ASCII letters that
  fold to \<^verbatim>\<open>k\<close> and \<^verbatim>\<open>s\<close>); \<^verbatim>\<open>null\<close> leaves a string as it is and makes
  a map nil; an object is added to the map the field already holds; a value of another
  kind is a type error. Members that select no field are skipped.
\<close>

fun mapInsert :: "string \<Rightarrow> jvalue \<Rightarrow> (string \<times> jvalue) list \<Rightarrow> (string \<times> jvalue) list" where
  "mapInsert k v [] = [(k, v)]"
| "mapInsert k v ((k', v') # m) =
     (if k < k' then (k, v) # (k', v') # m
      else if k = k' then (k, v) # m
      else (k', v') # mapInsert k v m)"

definition mapStore :: "(string \<times> jvalue) list \<Rightarrow> (string \<times> jvalue) list \<Rightarrow> (string \<times> jvalue) list" where
  "mapStore m kvs = foldl (\<lambda>m (k, v). mapInsert k v m) m kvs"

fun toInterface :: "jvalue \<Rightarrow> jvalue" where
  "toInterface (JArray vs) = JArray (map toInterface vs)"
| "toInterface (JObject kvs) = JObject (mapStore [] (map (\<lambda>(k, v). (k, toInterface v)) kvs))"
| "toInterface v = v"

definition toLower :: "char \<Rightarrow> char" where
  "toLower c = (if CHR ''A'' \<le> c \<and> c \<le> CHR ''Z'' then char_of (of_char c + (32::nat)) else c)"

definition equalFold :: "string \<Rightarrow> string \<Rightarrow> bool" where
  "equalFold s t = (map toLower s = map toLower t)"

fun storeMessage :: "encodedMessage \<Rightarrow> (string \<times> jvalue) list \<Rightarrow> error + encodedMessage" where
  "storeMessage msg [] = Inr msg"
| "storeMessage msg ((k, v) # kvs) =
     (if equalFold k ''Message'' then
        (case v of
           JString s \<Rightarrow> storeMessage (msg\<lparr>Message := s\<rparr>) kvs
         | JNull \<Rightarrow> storeMessage msg kvs
         | _ \<Rightarrow> Inl UnmarshalTypeError)
      else storeMessage msg kvs)"

definition unmarshal_encodedMessage :: "string \<Rightarrow> error + encodedMessage" where
  "unmarshal_encodedMessage body =
     (case parseJSON body of
        None \<Rightarrow> Inl SyntaxError
      | Some JNull \<Rightarrow> Inr \<lparr>Message = []\<rparr>
      | Some (JObject kvs) \<Rightarrow> storeMessage \<lparr>Message = []\<rparr> kvs
      | Some _ \<Rightarrow> Inl UnmarshalTypeError)"

fun storeEvent :: "encodedEvent \<Rightarrow> (string \<times> jvalue) list \<Rightarrow> error + encodedEvent" where
  "storeEvent evt [] = Inr evt"
| "storeEvent evt ((k, v) # kvs) =
     (if equalFold k ''name'' then
        (case v of
           JString s \<Rightarrow> storeEvent (evt\<lparr>Name := s\<rparr>) kvs
         | JNull \<Rightarrow> storeEvent evt kvs
         | _ \<Rightarrow> Inl UnmarshalTypeError)
      else if equalFold k ''data'' then
        (case v of
           JObject members \<Rightarrow>
             storeEvent
               (evt\<lparr>Data := Some (mapStore (case Data evt of None \<Rightarrow> [] | Some m \<Rightarrow> m)
                                 (map (\<lambda>(k, v). (k, toInterface v)) members))\<rparr>) kvs
         | JNull \<Rightarrow> storeEvent (evt\<lparr>Data := None\<rparr>) kvs
         | _ \<Rightarrow> Inl UnmarshalTypeError)
      else storeEvent evt kvs)"

definition unmarshal_encodedEvent :: "string \<Rightarrow> error + encodedEvent" where
  "unmarshal_encodedEvent doc =
     (case parseJSON doc of
        None \<Rightarrow> Inl SyntaxError
      | Some JNull \<Rightarrow> Inr \<lparr>Name = [], Data = None\<rparr>
      | Some (JObject kvs) \<Rightarrow> storeEvent \<lparr>Name = [], Data = None\<rparr> kvs
      | Some _ \<Rightarrow> Inl UnmarshalTypeError)"

section \<open>The SQS provider\<close>





text \<open>
  The remote queue is the client interface \<^verbatim>\<open>sqsiface.SQSAPI\<close>: each call takes its input
  record and answers with an optional error. What the provider does is recorded as the
  list of its effects in order: the remote calls with their inputs and the sends on the
  provider's channels.
\<close>

record DeleteMessageInput =
  deleteQueueUrl :: string
  deleteReceiptHandle :: string

record MessageAttributeValue =
  StringValue :: "string option"
  DataType :: "string option"

record SendMessageInput =
  sendQueueUrl :: string
  sendDelaySeconds :: "64 word"
  sendMessageAttributes :: "(string \<times> MessageAttributeValue) list"
  sendMessageBody :: string
  sendMessageDeduplicationId :: "string option"

record SQSAPI =
  DeleteMessage :: "DeleteMessageInput \<Rightarrow> error option"
  SendMessage :: "SendMessageInput \<Rightarrow> error option"

record Provider =
  sqsClient :: SQSAPI
  queueURL :: string
  maximumRetryCount :: "64 word"

datatype effect =
    DeleteMessageCall DeleteMessageInput
  | SendMessageCall SendMessageInput
  | ErrorsSend error
  | EventsSend Event



definition MaximumRetryCount :: "Provider \<Rightarrow> 64 word" where
  "MaximumRetryCount p = maximumRetryCount p"



subsection \<open>Decoding a message\<close>

text \<open>
  \<^verbatim>\<open>strconv.Atoi\<close> accepts an optional sign and decimal digits within the range of
  \<^verbatim>\<open>int\<close>. In an \<^verbatim>\<open>sqs.Message\<close> the receipt handle, the body and the string value of a
  message attribute are pointers; \<^verbatim>\<open>DecodeEvent\<close> dereferences the receipt handle and the
  string value without a check, and a nil pointer there is a panic.
\<close>

definition digitsValue :: "string \<Rightarrow> int" where
  "digitsValue ds = foldl (\<lambda>a c. a * 10 + (of_char c - 48)) 0 ds"

definition Atoi :: "string \<Rightarrow> error + 64 word" where
  "Atoi s =
     (let neg = (case s of [] \<Rightarrow> False | c # r \<Rightarrow> c = CHR ''-'');
          ds = (case s of [] \<Rightarrow> [] | c # r \<Rightarrow> if c = CHR ''-'' \<or> c = CHR ''+'' then r else s)
      in if ds = [] \<or> \<not> (\<forall>d \<in> set ds. isDigit d) then Inl NumError
         else if neg then
           (if digitsValue ds \<le> 2 ^ 63 then Inr (word_of_int (- digitsValue ds))
            else Inl NumError)
         else
           (if digitsValue ds < 2 ^ 63 then Inr (word_of_int (digitsValue ds))
            else Inl NumError))"

record Message =
  msgReceiptHandle :: "string option"
  msgAttributes :: "string \<rightharpoonup> string"
  msgMessageAttributes :: "string \<rightharpoonup> MessageAttributeValue"
  msgBody :: "string option"

datatype 'a outcome = Returns 'a | Fails error | Panics

definition aws_StringValue :: "string option \<Rightarrow> string" where
  "aws_StringValue v = (case v of None \<Rightarrow> [] | Some s \<Rightarrow> s)"

definition decodeBody :: "Event \<Rightarrow> Message \<Rightarrow> Event outcome" where
  "decodeBody event message =
     (let body = aws_StringValue (msgBody message)
      in case unmarshal_encodedMessage body of
           Inl err \<Rightarrow> Fails err
         | Inr msg \<Rightarrow>
             (case unmarshal_encodedEvent (Message msg) of
                Inl err \<Rightarrow> Fails err
              | Inr evt \<Rightarrow> Returns (event\<lparr>name := Name evt, data := Data evt\<rparr>)))"

definition DecodeEvent :: "Message \<Rightarrow> Event outcome" where
  "DecodeEvent message =
     (case msgReceiptHandle message of
        None \<Rightarrow> Panics
      | Some rh \<Rightarrow>
          (let event = \<lparr>name = [], data = None, receiptHandle = rh,
                        deduplicationID = msgAttributes message ''DeduplicationID'',
                        retryCount = 0\<rparr>
           in case msgMessageAttributes message ''RetryCount'' of
                None \<Rightarrow> decodeBody (event\<lparr>retryCount := 0\<rparr>) message
              | Some retryCountStr \<Rightarrow>
                  (case StringValue retryCountStr of
                     None \<Rightarrow> Panics
                   | Some str \<Rightarrow>
                       (case Atoi str of
                          Inl err \<Rightarrow> Fails err
                        | Inr rc \<Rightarrow> decodeBody (event\<lparr>retryCount := rc\<rparr>) message))))"

section \<open>Listener\<close>

text \<open>
  A handler is a function from the event to an optional error. What a worker does is
  recorded as the list of calls it makes, in order: handler invocations (event name and
  position in the registration list), the calls on the provider interface, the error
  callback and the send on \<^verbatim>\<open>workerDone\<close>. The field \<^verbatim>\<open>errorHandler\<close> is a pointer; calling
  through a nil pointer panics.
\<close>

type_synonym EventHandler = "Event \<Rightarrow> error option"

datatype ErrorHandler = ErrorHandler nat

record Listener =
  provider :: Provider
  handlers :: "string \<rightharpoonup> EventHandler list"
  errorHandler :: "ErrorHandler option"

datatype call =
    HandlerCall string nat
  | ProviderDelete Event
  | ProviderRequeue Event
  | ErrorHandlerCall ErrorHandler error
  | WorkerDoneSend
  | NilPanic

definition RegisterHandler :: "Listener \<Rightarrow> string \<Rightarrow> EventHandler \<Rightarrow> Listener" where
  "RegisterHandler l n fn =
     l\<lparr>handlers := (handlers l)(n \<mapsto> (case handlers l n of None \<Rightarrow> [] | Some hs \<Rightarrow> hs) @ [fn])\<rparr>"

fun callHandlers :: "string \<Rightarrow> nat \<Rightarrow> EventHandler list \<Rightarrow> Event \<Rightarrow> call list \<times> error option" where
  "callHandlers n i [] event = ([], None)"
| "callHandlers n i (fn # fns) event =
     (case fn event of
        Some err \<Rightarrow> ([HandlerCall n i], Some err)
      | None \<Rightarrow> (case callHandlers n (Suc i) fns event of (cs, r) \<Rightarrow> (HandlerCall n i # cs, r)))"

definition handleEvent :: "Listener \<Rightarrow> Event \<Rightarrow> call list \<times> error option" where
  "handleEvent l event =
     (case handlers l (name event) of
        None \<Rightarrow> ([], None)
      | Some hs \<Rightarrow> callHandlers (name event) 0 hs event)"

definition retriesExceeded :: "Event \<Rightarrow> error" where
  "retriesExceeded event =
     Errorf (''Event exceeded maximum retry count: '' @ EncodeEvent event @ [CHR 0x0A])"

fun worker :: "Listener \<Rightarrow> Event list \<Rightarrow> call list" where
  "worker l [] = []"
| "worker l (event # events) =
     (case handleEvent l event of
        (cs, Some err) \<Rightarrow>
          cs @ (if retryCount event \<le>s MaximumRetryCount (provider l)
                then [ProviderRequeue event, WorkerDoneSend]
                else (case errorHandler l of
                        None \<Rightarrow> [NilPanic]
                      | Some h \<Rightarrow> [ErrorHandlerCall h (retriesExceeded event), WorkerDoneSend]))
      | (cs, None) \<Rightarrow> cs @ ProviderDelete event # worker l events)"





definition times :: "(call \<Rightarrow> bool) \<Rightarrow> call list \<Rightarrow> nat" where
  "times P cs = length (filter P cs)"

section \<open>Runs of a system of goroutines\<close>

text \<open>
  A system of goroutines is given by the list of the states that one step of one
  goroutine can lead to. A run is a list of states, each a successor of the one before.
\<close>

fun follows :: "('s \<Rightarrow> 's list) \<Rightarrow> 's list \<Rightarrow> bool" where
  "follows nxt [] = True"
| "follows nxt [s] = True"
| "follows nxt (s # s' # ss) = (s' \<in> set (nxt s) \<and> follows nxt (s' # ss))"

inductive reaches :: "('s \<Rightarrow> 's list) \<Rightarrow> 's \<Rightarrow> 's \<Rightarrow> bool" for nxt s0 where
  start: "reaches nxt s0 s0"
| step: "reaches nxt s0 s \<Longrightarrow> s' \<in> set (nxt s) \<Longrightarrow> reaches nxt s0 s'"

section \<open>The polling loop and Stop\<close>

text \<open>
  The goroutine that \<^verbatim>\<open>Start\<close> launches and a call of \<^verbatim>\<open>Stop\<close> run side by side; each
  is a program counter over the shared channels, and a step of the system is a step of
  one of them. A channel is its buffer, its capacity and whether it is closed: a send on
  a closed channel panics, a send on a full buffer waits (no step), a receive from a
  closed and empty channel succeeds at once. A \<^verbatim>\<open>select\<close> may take any ready case and
  takes \<^verbatim>\<open>default\<close> only when none is ready. The answers of \<^verbatim>\<open>ReceiveMessage\<close> are given
  as a list. The flag \<open>returnsOnError\<close> selects the loop of \<^verbatim>\<open>sqs/provider.go\<close>, which
  returns after it has sent an error, instead of the loop of \<^verbatim>\<open>part_001\<close>, which goes on.
\<close>

record 'a chan =
  buf :: "'a list"
  cap :: nat
  closed :: bool

datatype 'a sent = Sent "'a chan" | SendBlocks | SendPanics

definition chan_send :: "'a chan \<Rightarrow> 'a \<Rightarrow> 'a sent" where
  "chan_send c x =
     (if closed c then SendPanics
      else if length (buf c) < cap c then Sent (c\<lparr>buf := buf c @ [x]\<rparr>)
      else SendBlocks)"

definition chan_close :: "'a chan \<Rightarrow> 'a chan" where
  "chan_close c = c\<lparr>closed := True\<rparr>"

definition make_chan :: "nat \<Rightarrow> 'a chan" where
  "make_chan n = \<lparr>buf = [], cap = n, closed = False\<rparr>"

datatype pollpc =
    AtSelect
  | AtReceive
  | SendReceiveError error
  | AtRange "Message list"
  | SendDecodeError error "Message list"
  | SendEvent Event "Message list"
  | PollReturned
  | PollPanicked

datatype stoppc = StopNotCalled | StopClosedEvents | StopClosedErrors | StopReturned

record psys =
  eventsCh :: "Event chan"
  errorsCh :: "error chan"
  doneCh :: "bool chan"
  poll :: pollpc
  stop :: stoppc
  remote :: "(error + Message list) list"

definition afterStart :: "(error + Message list) list \<Rightarrow> psys" where
  "afterStart answers =
     \<lparr>eventsCh = make_chan 100, errorsCh = make_chan 1, doneCh = make_chan 1,
      poll = AtSelect, stop = StopNotCalled, remote = answers\<rparr>"

definition sendError :: "bool \<Rightarrow> psys \<Rightarrow> error \<Rightarrow> pollpc \<Rightarrow> psys list" where
  "sendError returnsOnError s err continue =
     (case chan_send (errorsCh s) err of
        Sent c \<Rightarrow> [s\<lparr>errorsCh := c, poll := (if returnsOnError then PollReturned else continue)\<rparr>]
      | SendBlocks \<Rightarrow> []
      | SendPanics \<Rightarrow> [s\<lparr>poll := PollPanicked\<rparr>])"

definition pollNext :: "bool \<Rightarrow> psys \<Rightarrow> psys list" where
  "pollNext returnsOnError s =
     (case poll s of
        AtSelect \<Rightarrow>
          (if buf (doneCh s) \<noteq> [] \<or> closed (doneCh s)
           then [s\<lparr>doneCh := (doneCh s)\<lparr>buf := tl (buf (doneCh s))\<rparr>, poll := PollReturned\<rparr>]
           else []) @
          (if buf (errorsCh s) \<noteq> [] \<or> closed (errorsCh s)
           then [s\<lparr>errorsCh := (errorsCh s)\<lparr>buf := tl (buf (errorsCh s))\<rparr>\<rparr>]
           else []) @
          (if buf (doneCh s) = [] \<and> \<not> closed (doneCh s) \<and>
              buf (errorsCh s) = [] \<and> \<not> closed (errorsCh s)
           then [s\<lparr>poll := AtReceive\<rparr>]
           else [])
      | AtReceive \<Rightarrow>
          (case remote s of
             [] \<Rightarrow> []
           | Inl err # answers \<Rightarrow> [s\<lparr>poll := SendReceiveError err, remote := answers\<rparr>]
           | Inr msgs # answers \<Rightarrow> [s\<lparr>poll := AtRange msgs, remote := answers\<rparr>])
      | SendReceiveError err \<Rightarrow> sendError returnsOnError s err AtSelect
      | AtRange [] \<Rightarrow> [s\<lparr>poll := AtSelect\<rparr>]
      | AtRange (msg # msgs) \<Rightarrow>
          (case DecodeEvent msg of
             Returns event \<Rightarrow> [s\<lparr>poll := SendEvent event msgs\<rparr>]
           | Fails err \<Rightarrow> [s\<lparr>poll := SendDecodeError err msgs\<rparr>]
           | Panics \<Rightarrow> [s\<lparr>poll := PollPanicked\<rparr>])
      | SendDecodeError err msgs \<Rightarrow> sendError returnsOnError s err (AtRange msgs)
      | SendEvent event msgs \<Rightarrow>
          (case chan_send (eventsCh s) event of
             Sent c \<Rightarrow> [s\<lparr>eventsCh := c, poll := AtRange msgs\<rparr>]
           | SendBlocks \<Rightarrow> []
           | SendPanics \<Rightarrow> [s\<lparr>poll := PollPanicked\<rparr>])
      | PollReturned \<Rightarrow> []
      | PollPanicked \<Rightarrow> [])"

definition stopNext :: "psys \<Rightarrow> psys list" where
  "stopNext s =
     (case stop s of
        StopNotCalled \<Rightarrow> [s\<lparr>eventsCh := chan_close (eventsCh s), stop := StopClosedEvents\<rparr>]
      | StopClosedEvents \<Rightarrow> [s\<lparr>errorsCh := chan_close (errorsCh s), stop := StopClosedErrors\<rparr>]
      | StopClosedErrors \<Rightarrow>
          (case chan_send (doneCh s) True of
             Sent c \<Rightarrow> [s\<lparr>doneCh := c, stop := StopReturned\<rparr>]
           | _ \<Rightarrow> [])
      | StopReturned \<Rightarrow> [])"

definition psysNext :: "bool \<Rightarrow> psys \<Rightarrow> psys list" where
  "psysNext returnsOnError s = pollNext returnsOnError s @ stopNext s"

section \<open>Listen: the supervisor and its workers\<close>

text \<open>
  \<^verbatim>\<open>Listen\<close> of the first listener of \<^verbatim>\<open>part_003\<close>. The supervisor first launches \<open>max\<close>
  goroutines, \<open>max\<close> being four times the number of keys of the handler map, and then
  waits for the halt signal or a signal on \<^verbatim>\<open>workerDone\<close>. A goroutine increments the
  shared counter \<^verbatim>\<open>workers\<close>, runs the worker loop, and decrements the counter when the
  loop has returned. In the worker loop it takes the next event from the stream; when a
  handler fails it sends on \<^verbatim>\<open>workerDone\<close> (capacity \<open>max\<close>) and returns, and when the stream
  is closed and empty it returns without a signal. Increment and decrement are taken as
  single steps. Events arrive from the list \<open>incoming\<close> while the stream, of capacity
  100, has room; the halt signal may arrive at any time.
\<close>

datatype gstate = Spawned | InWorker | Signalling | LeftWorker | Exited

datatype suppc = Launching nat | Supervising | Halted

record lsys =
  supPc :: suppc
  goroutines :: "gstate list"
  workers :: int
  workerDone :: nat
  stream :: "Event list"
  streamClosed :: bool
  incoming :: "Event list"
  halt :: bool
  taken :: nat

definition capacity :: "Listener \<Rightarrow> nat" where
  "capacity l = card (dom (handlers l)) * 4"

definition listenStart :: "Event list \<Rightarrow> lsys" where
  "listenStart evs =
     \<lparr>supPc = Launching 0, goroutines = [], workers = 0, workerDone = 0, stream = [],
      streamClosed = False, incoming = evs, halt = False, taken = 0\<rparr>"

definition supNext :: "Listener \<Rightarrow> lsys \<Rightarrow> lsys list" where
  "supNext l s =
     (case supPc s of
        Launching i \<Rightarrow>
          if i < capacity l
          then [s\<lparr>goroutines := goroutines s @ [Spawned], supPc := Launching (i + 1)\<rparr>]
          else [s\<lparr>supPc := Supervising\<rparr>]
      | Supervising \<Rightarrow>
          (if halt s then [s\<lparr>streamClosed := True, supPc := Halted\<rparr>] else []) @
          (if 0 < workerDone s
           then [if workers s < int (capacity l)
                 then s\<lparr>workerDone := workerDone s - 1, goroutines := goroutines s @ [Spawned]\<rparr>
                 else s\<lparr>workerDone := workerDone s - 1\<rparr>]
           else [])
      | Halted \<Rightarrow> [])"

definition workerNext :: "Listener \<Rightarrow> lsys \<Rightarrow> nat \<Rightarrow> lsys list" where
  "workerNext l s g =
     (case goroutines s ! g of
        Spawned \<Rightarrow> [s\<lparr>goroutines := (goroutines s)[g := InWorker], workers := workers s + 1\<rparr>]
      | InWorker \<Rightarrow>
          (case stream s of
             [] \<Rightarrow> if streamClosed s then [s\<lparr>goroutines := (goroutines s)[g := LeftWorker]\<rparr>] else []
           | event # events \<Rightarrow>
               (case handleEvent l event of
                  (cs, Some err) \<Rightarrow>
                    [s\<lparr>stream := events, taken := taken s + 1,
                       goroutines := (goroutines s)[g := Signalling]\<rparr>]
                | (cs, None) \<Rightarrow> [s\<lparr>stream := events, taken := taken s + 1\<rparr>]))
      | Signalling \<Rightarrow>
          if workerDone s < capacity l
          then [s\<lparr>workerDone := workerDone s + 1,
                  goroutines := (goroutines s)[g := LeftWorker]\<rparr>]
          else []
      | LeftWorker \<Rightarrow> [s\<lparr>goroutines := (goroutines s)[g := Exited], workers := workers s - 1\<rparr>]
      | Exited \<Rightarrow> [])"

definition envNext :: "lsys \<Rightarrow> lsys list" where
  "envNext s =
     (case incoming s of
        [] \<Rightarrow> []
      | event # events \<Rightarrow>
          if length (stream s) < 100 \<and> \<not> streamClosed s
          then [s\<lparr>stream := stream s @ [event], incoming := events\<rparr>] else []) @
     (if halt s then [] else [s\<lparr>halt := True\<rparr>])"

definition listenNext :: "Listener \<Rightarrow> lsys \<Rightarrow> lsys list" where
  "listenNext l s =
     supNext l s @ concat (map (workerNext l s) [0..<length (goroutines s)]) @ envNext s"

fun live :: "gstate \<Rightarrow> nat" where
  "live Spawned = 1"
| "live InWorker = 1"
| "live Signalling = 1"
| "live LeftWorker = 0"
| "live Exited = 0"

definition active :: "lsys \<Rightarrow> nat" where
  "active s = sum_list (map live (goroutines s))"

definition budget :: "Listener \<Rightarrow> lsys \<Rightarrow> nat" where
  "budget l s = (case supPc s of Launching i \<Rightarrow> i | _ \<Rightarrow> capacity l)"

definition listenInv :: "Listener \<Rightarrow> lsys \<Rightarrow> bool" where
  "listenInv l s =
     (active s + workerDone s \<le> budget l s \<and> budget l s \<le> capacity l \<and>
      (\<forall>i. supPc s = Launching i \<longrightarrow> length (goroutines s) = i))"

section \<open>Notions used in the proofs\<close>

text \<open>
  The values whose numbers are valid literals, the token sequence of a value, the
  invariants of the token machine, and the values that are Go maps all the way down
  (keys strictly increasing).
\<close>

definition validLiteral :: "string \<Rightarrow> bool" where
  "validLiteral n =
     (case n of
        [] \<Rightarrow> False
      | c # cs \<Rightarrow> (c = CHR ''-'' \<or> isDigit c) \<and> (\<forall>d \<in> set cs. isNumChar d) \<and> validNumber n)"

fun wellFormed :: "jvalue \<Rightarrow> bool" where
  "wellFormed (JNumber n) = validLiteral n"
| "wellFormed (JArray vs) = (\<forall>v \<in> set vs. wellFormed v)"
| "wellFormed (JObject kvs) = (\<forall>(k, v) \<in> set kvs. wellFormed v)"
| "wellFormed v = True"

fun sepTokens :: "token list list \<Rightarrow> token list" where
  "sepTokens [] = []"
| "sepTokens [x] = x"
| "sepTokens (x # y # ys) = x @ TComma # sepTokens (y # ys)"

fun tokens :: "jvalue \<Rightarrow> token list" where
  "tokens JNull = [TNull]"
| "tokens (JBool b) = [if b then TTrue else TFalse]"
| "tokens (JNumber n) = [TNumber n]"
| "tokens (JString s) = [TString s]"
| "tokens (JArray vs) = TLBracket # sepTokens (map tokens vs) @ [TRBracket]"
| "tokens (JObject kvs) =
     TLBrace # sepTokens (map (\<lambda>(k, v). TString k # TColon # tokens v) kvs) @ [TRBrace]"

definition startsNum :: "string \<Rightarrow> bool" where
  "startsNum r = (case r of [] \<Rightarrow> False | c # cs \<Rightarrow> isNumChar c)"

definition after :: "jvalue \<Rightarrow> frame list \<Rightarrow> token list \<Rightarrow> pstate option" where
  "after v st ts = (case deliver v st of None \<Rightarrow> None | Some s \<Rightarrow> run s ts)"




fun canonical :: "jvalue \<Rightarrow> bool" where
  "canonical (JNumber n) = validLiteral n"
| "canonical (JArray vs) = (\<forall>v \<in> set vs. canonical v)"
| "canonical (JObject kvs) =
     (sorted_wrt (<) (map fst kvs) \<and> (\<forall>(k, v) \<in> set kvs. canonical v))"
| "canonical v = True"

definition canonicalMap :: "(string \<times> jvalue) list option \<Rightarrow> bool" where
  "canonicalMap d = (case d of None \<Rightarrow> True | Some m \<Rightarrow> canonical (JObject m))"

definition eventValue :: "encodedEvent \<Rightarrow> jvalue" where
  "eventValue evt =
     JObject [(''name'', JString (Name evt)),
              (''data'', case Data evt of None \<Rightarrow> JNull | Some m \<Rightarrow> JObject m)]"

definition messageValue :: "encodedMessage \<Rightarrow> jvalue" where
  "messageValue msg = JObject [(''Message'', JString (Message msg))]"

subsection \<open>Sample inputs\<close>

definition failing :: EventHandler where
  "failing e = Some (Errorf ''boom'')"

definition passing :: EventHandler where
  "passing e = None"

definition anEvent :: "string \<Rightarrow> 64 word \<Rightarrow> Event" where
  "anEvent n rc = \<lparr>name = n, data = None, receiptHandle = ''r'', deduplicationID = None, retryCount = rc\<rparr>"

definition okClient :: SQSAPI where
  "okClient = \<lparr>DeleteMessage = (\<lambda>i. None), SendMessage = (\<lambda>i. None)\<rparr>"

definition prov :: Provider where
  "prov = \<lparr>sqsClient = okClient, queueURL = ''q'', maximumRetryCount = 25\<rparr>"

definition lst :: Listener where
  "lst = \<lparr>provider = prov, handlers = [''a'' \<mapsto> [passing, failing, passing]],
     errorHandler = Some (ErrorHandler 0)\<rparr>"

definition maxRetryEvent :: Event where
  "maxRetryEvent = anEvent ''a'' 9223372036854775807"

definition test_message :: Message where
  "test_message = \<lparr>msgReceiptHandle = Some ''Hello!'',
     msgAttributes = [''DeduplicationID'' \<mapsto> ''1234''],
     msgMessageAttributes = [''RetryCount'' \<mapsto> \<lparr>StringValue = Some ''5'', DataType = Some ''Number''\<rparr>],
     msgBody = Some test_body\<rparr>"

definition test_event :: Event where
  "test_event = \<lparr>name = ''Domain'' @ [bs] @ ''Event'',
     data = Some [(''occurredOn'', JString ''2018-03-08 11:11:11'')],
     receiptHandle = ''Hello!'', deduplicationID = Some ''1234'', retryCount = 5\<rparr>"


definition binary_retry_message :: Message where
  "binary_retry_message = \<lparr>msgReceiptHandle = Some ''r'', msgAttributes = Map.empty,
     msgMessageAttributes = [''RetryCount'' \<mapsto> \<lparr>StringValue = None, DataType = Some ''Binary''\<rparr>],
     msgBody = Some ''not json''\<rparr>"

definition panicRun :: "psys list" where
  "panicRun =
     (let s0 = afterStart [Inr [test_message]];
          s1 = s0\<lparr>poll := AtReceive\<rparr>;
          s2 = s1\<lparr>eventsCh := chan_close (eventsCh s1), stop := StopClosedEvents\<rparr>;
          s3 = s2\<lparr>errorsCh := chan_close (errorsCh s2), stop := StopClosedErrors\<rparr>;
          s4 = s3\<lparr>doneCh := (doneCh s3)\<lparr>buf := [True]\<rparr>, stop := StopReturned\<rparr>;
          s5 = s4\<lparr>poll := AtRange [test_message], remote := []\<rparr>;
          s6 = s5\<lparr>poll := SendEvent test_event []\<rparr>;
          s7 = s6\<lparr>poll := PollPanicked\<rparr>
      in [s0, s1, s2, s3, s4, s5, s6, s7])"

definition bad_message :: Message where
  "bad_message = test_message\<lparr>msgBody := Some ''not json''\<rparr>"

definition legacyDecodeRun :: "psys list" where
  "legacyDecodeRun =
     (let s0 = afterStart [Inr [bad_message, test_message]];
          s1 = s0\<lparr>poll := AtReceive\<rparr>;
          s2 = s1\<lparr>poll := AtRange [bad_message, test_message], remote := []\<rparr>;
          s3 = s2\<lparr>poll := SendDecodeError SyntaxError [test_message]\<rparr>;
          s4 = s3\<lparr>errorsCh := (errorsCh s3)\<lparr>buf := [SyntaxError]\<rparr>, poll := PollReturned\<rparr>
      in [s0, s1, s2, s3, s4])"

definition legacyReceiveRun :: "psys list" where
  "legacyReceiveRun =
     (let s0 = afterStart [Inl (RemoteError ''timeout''), Inr [test_message]];
          s1 = s0\<lparr>poll := AtReceive\<rparr>;
          s2 = s1\<lparr>poll := SendReceiveError (RemoteError ''timeout''),
                  remote := [Inr [test_message]]\<rparr>;
          s3 = s2\<lparr>errorsCh := (errorsCh s2)\<lparr>buf := [RemoteError ''timeout'']\<rparr>,
                  poll := PollReturned\<rparr>
      in [s0, s1, s2, s3])"

definition currentDecodeRun :: "psys list" where
  "currentDecodeRun =
     (let s0 = afterStart [Inr [bad_message, test_message]];
          s1 = s0\<lparr>poll := AtReceive\<rparr>;
          s2 = s1\<lparr>poll := AtRange [bad_message, test_message], remote := []\<rparr>;
          s3 = s2\<lparr>poll := SendDecodeError SyntaxError [test_message]\<rparr>;
          s4 = s3\<lparr>errorsCh := (errorsCh s3)\<lparr>buf := [SyntaxError]\<rparr>,
                  poll := AtRange [test_message]\<rparr>;
          s5 = s4\<lparr>poll := SendEvent test_event []\<rparr>;
          s6 = s5\<lparr>eventsCh := (eventsCh s5)\<lparr>buf := [test_event]\<rparr>, poll := AtRange []\<rparr>;
          s7 = s6\<lparr>poll := AtSelect\<rparr>
      in [s0, s1, s2, s3, s4, s5, s6, s7])"

definition noHandlers :: Listener where
  "noHandlers = lst\<lparr>handlers := Map.empty\<rparr>"

definition zeroRun :: "lsys list" where
  "zeroRun =
     (let s0 = listenStart [anEvent ''a'' 0];
          s1 = s0\<lparr>supPc := Supervising\<rparr>;
          s2 = s1\<lparr>stream := [anEvent ''a'' 0], incoming := []\<rparr>
      in [s0, s1, s2])"

definition raceRun :: "lsys list" where
  "raceRun =
     (let s0 = listenStart [anEvent ''a'' 3];
          s1 = s0\<lparr>goroutines := [Spawned], supPc := Launching 1\<rparr>;
          s2 = s1\<lparr>goroutines := [Spawned, Spawned], supPc := Launching 2\<rparr>;
          s3 = s2\<lparr>goroutines := [Spawned, Spawned, Spawned], supPc := Launching 3\<rparr>;
          s4 = s3\<lparr>goroutines := [Spawned, Spawned, Spawned, Spawned], supPc := Launching 4\<rparr>;
          s5 = s4\<lparr>supPc := Supervising\<rparr>;
          s6 = s5\<lparr>goroutines := [InWorker, Spawned, Spawned, Spawned], workers := 1\<rparr>;
          s7 = s6\<lparr>goroutines := [InWorker, InWorker, Spawned, Spawned], workers := 2\<rparr>;
          s8 = s7\<lparr>goroutines := [InWorker, InWorker, InWorker, Spawned], workers := 3\<rparr>;
          s9 = s8\<lparr>goroutines := [InWorker, InWorker, InWorker, InWorker], workers := 4\<rparr>;
          s10 = s9\<lparr>stream := [anEvent ''a'' 3], incoming := []\<rparr>;
          s11 = s10\<lparr>stream := [], taken := 1,
                    goroutines := [Signalling, InWorker, InWorker, InWorker]\<rparr>;
          s12 = s11\<lparr>workerDone := 1, goroutines := [LeftWorker, InWorker, InWorker, InWorker]\<rparr>;
          s13 = s12\<lparr>workerDone := 0\<rparr>;
          s14 = s13\<lparr>goroutines := [Exited, InWorker, InWorker, InWorker], workers := 3\<rparr>
      in [s0, s1, s2, s3, s4, s5, s6, s7, s8, s9, s10, s11, s12, s13, s14])"

section \<open>Properties of the backoff\<close>

lemma math_Pow2_neg_floor: "y < 0 \<Longrightarrow> \<lfloor>min (math_Pow2 y) 900\<rfloor> = 0"
proof -
  assume y: "y < 0"
  have "(2::real) ^ nat (- y) > 1" using y by (simp add: one_less_power)
  then have "0 < math_Pow2 y" "math_Pow2 y < 1"
    using y by (simp_all add: math_Pow2_def)
  then show ?thesis by (simp add: floor_eq_iff min_def)
qed

lemma math_Pow2_nonneg_floor:
  "0 \<le> y \<Longrightarrow> \<lfloor>min (math_Pow2 y) 900\<rfloor> = min (2 ^ nat y) (900::int)"
proof -
  assume y: "0 \<le> y"
  have "math_Pow2 y = real_of_int (2 ^ nat y)"
    using y by (simp add: math_Pow2_def)
  then have "min (math_Pow2 y) 900 = real_of_int (min (2 ^ nat y) 900)"
    by (simp only: of_int_min of_int_numeral)
  then show ?thesis by (simp only: floor_of_int)
qed

lemma sint_succ_64:
  fixes w :: "64 word"
  assumes "w \<noteq> 2 ^ 63 - 1"
  shows "sint (w + 1) = sint w + 1"
proof -
  have ne: "sint w \<noteq> 2 ^ 63 - 1"
  proof
    assume "sint w = 2 ^ 63 - 1"
    then have "word_of_int (sint w) = (word_of_int (2 ^ 63 - 1) :: 64 word)" by simp
    then show False using assms by simp
  qed
  have "sint w < 2 ^ 63" "- (2 ^ 63) \<le> sint w"
    using sint_lt [of w] sint_ge [of w] by simp_all
  with ne have r: "- (2 ^ 63) \<le> sint w + 1" "sint w + 1 < 2 ^ 63" by simp_all
  have "sint (w + 1) = signed_take_bit 63 (sint w + 1)"
    by (simp add: sint_word_ariths)
  also have "\<dots> = sint w + 1"
    using r by (simp add: signed_take_bit_int_eq_self)
  finally show ?thesis .
qed

lemma DelaySeconds_in_range:
  assumes nonneg: "0 \<le> sint (retryCount e)" and below: "retryCount e \<noteq> 2 ^ 63 - 1"
  shows "sint (DelaySeconds e) = min (2 ^ (nat (sint (retryCount e)) + 1)) 900"
proof -
  have s: "sint (retryCount e + 1) = sint (retryCount e) + 1"
    using below by (rule sint_succ_64)
  have n: "nat (sint (retryCount e) + 1) = nat (sint (retryCount e)) + 1"
    using nonneg by simp
  define m :: int where "m = min (2 ^ (nat (sint (retryCount e)) + 1)) 900"
  have m: "0 \<le> m" "m \<le> 900" by (simp_all add: m_def)
  have "DelaySeconds e = word_of_int m"
    using nonneg by (simp add: DelaySeconds_def s n math_Pow2_nonneg_floor m_def)
  moreover have "sint (word_of_int m :: 64 word) = m"
    using m by (simp add: signed_of_int signed_take_bit_int_eq_self)
  ultimately show ?thesis by (simp add: m_def)
qed

lemma DelaySeconds_maxRetryEvent: "DelaySeconds maxRetryEvent = 0"
  by (simp add: maxRetryEvent_def anEvent_def DelaySeconds_def math_Pow2_neg_floor)

lemma DelaySeconds_5: "DelaySeconds (e\<lparr>retryCount := 5\<rparr>) = 64"
  by (simp add: DelaySeconds_def math_Pow2_nonneg_floor)

lemma DelaySeconds_15: "DelaySeconds (e\<lparr>retryCount := 15\<rparr>) = 900"
  by (simp add: DelaySeconds_def math_Pow2_nonneg_floor)

text \<open>
  C3. For a retry count from 0 up to, but not including, the largest \<^verbatim>\<open>int\<close>, the delay
  is \<open>min (2 ^ (retryCount + 1)) 900\<close> seconds: computed from the event's own retry count,
  with a ceiling of 900. A retry count of 5 gives 64 and one of 15 gives 900.
\<close>

theorem DelaySeconds_formula:
  "(0 \<le> sint (retryCount e) \<and> retryCount e \<noteq> 2 ^ 63 - 1 \<longrightarrow>
      sint (DelaySeconds e) = min (2 ^ (nat (sint (retryCount e)) + 1)) 900) \<and>
   DelaySeconds (e\<lparr>retryCount := 5\<rparr>) = 64 \<and>
   DelaySeconds (e\<lparr>retryCount := 15\<rparr>) = 900"
  using DelaySeconds_in_range [of e] DelaySeconds_5 [of e] DelaySeconds_15 [of e] by simp

theorem DelaySeconds_formula_witness:
  "0 \<le> sint (retryCount (anEvent ''a'' 3)) \<and> retryCount (anEvent ''a'' 3) \<noteq> 2 ^ 63 - 1 \<and>
   sint (DelaySeconds (anEvent ''a'' 3)) = 16"
  using DelaySeconds_formula [of "anEvent ''a'' 3"] by (simp add: anEvent_def)

text \<open>
  At the largest \<^verbatim>\<open>int\<close>, a non-negative retry count that \<^verbatim>\<open>strconv.Atoi\<close> accepts,
  \<open>retryCount + 1\<close> wraps to the smallest \<^verbatim>\<open>int\<close>, the power underflows and the delay is
  0 seconds, not 900.
\<close>

theorem DelaySeconds_wraps_at_max_int:
  "sint (retryCount maxRetryEvent) = 2 ^ 63 - 1 \<and> DelaySeconds maxRetryEvent = 0"
  using DelaySeconds_maxRetryEvent by (simp add: maxRetryEvent_def anEvent_def)

section \<open>Properties of the provider\<close>













section \<open>Properties of the listener\<close>






lemma RegisterHandler_appends:
  "handlers (RegisterHandler l n fn) n =
     Some ((case handlers l n of None \<Rightarrow> [] | Some hs \<Rightarrow> hs) @ [fn])"
  by (simp add: RegisterHandler_def)


lemma handleEvent_lst_a: "handleEvent lst (anEvent ''a'' rc) =
   ([HandlerCall ''a'' 0, HandlerCall ''a'' 1], Some (Errorf ''boom''))"
  by (simp add: handleEvent_def lst_def anEvent_def passing_def failing_def)






section \<open>Properties of the codec\<close>

lemma hexVal_hex: "d < 16 \<Longrightarrow> hexVal (hex d) = Some d"
proof -
  assume "d < 16"
  then have "d = 0 \<or> d = 1 \<or> d = 2 \<or> d = 3 \<or> d = 4 \<or> d = 5 \<or> d = 6 \<or> d = 7 \<or> d = 8
      \<or> d = 9 \<or> d = 10 \<or> d = 11 \<or> d = 12 \<or> d = 13 \<or> d = 14 \<or> d = 15" by arith
  then show ?thesis
    by (elim disjE) (simp_all add: hexVal_def hex_def isDigit_def)
qed

lemma getu4_encoded:
  assumes "n < 128"
  shows "getu4 (bs # CHR ''u'' # CHR ''0'' # CHR ''0'' # hex (n div 16) # hex (n mod 16) # rest) = Some n"
proof -
  have "n div 16 < 16" "n mod 16 < 16" using assms by simp_all
  then have "hexVal (hex (n div 16)) = Some (n div 16)" "hexVal (hex (n mod 16)) = Some (n mod 16)"
    by (simp_all add: hexVal_hex)
  moreover have "hexVal CHR ''0'' = Some 0" by (simp add: hexVal_def isDigit_def)
  ultimately show ?thesis by (simp add: getu4_def)
qed

lemma unquote_encodeChar:
  "unquote (encodeChar c @ rest) = prepend [c] (unquote rest)"
proof -
  consider (esc) "c = bs \<or> c = dq"
    | (short) "c \<noteq> bs" "c \<noteq> dq" "c = CHR 0x0A \<or> c = CHR 0x0D \<or> c = CHR 0x09"
    | (uni) "c \<noteq> bs" "c \<noteq> dq" "c \<noteq> CHR 0x0A" "c \<noteq> CHR 0x0D" "c \<noteq> CHR 0x09"
        "of_char c < (0x20::nat) \<or> c = CHR ''<'' \<or> c = CHR ''>'' \<or> c = CHR ''&''"
    | (plain) "c \<noteq> bs" "c \<noteq> dq" "\<not> of_char c < (0x20::nat)" "c \<noteq> CHR ''<''" "c \<noteq> CHR ''>''" "c \<noteq> CHR ''&''"
        "c \<noteq> CHR 0x0A" "c \<noteq> CHR 0x0D" "c \<noteq> CHR 0x09"
    by blast
  then show ?thesis
  proof cases
    case esc
    then show ?thesis
      by (auto simp: encodeChar_def unescape_def bs_def dq_def)
  next
    case short
    then show ?thesis
      by (auto simp: encodeChar_def unescape_def bs_def dq_def)
  next
    case uni
    define n :: nat where "n = of_char c"
    have n: "n < 128" using uni(6) by (auto simp: n_def)
    have enc: "encodeChar c = [bs, CHR ''u'', CHR ''0'', CHR ''0'', hex (n div 16), hex (n mod 16)]"
      using uni by (simp add: encodeChar_def n_def)
    have c: "char_of n = c" by (simp add: n_def)
    have ne: "bs \<noteq> dq" "CHR ''u'' \<noteq> dq" by (simp_all add: bs_def dq_def)
    show ?thesis
      using n ne by (simp add: enc getu4_encoded EncodeRune_def c)
  next
    case plain
    then show ?thesis
      by (simp add: encodeChar_def)
  qed
qed

lemma unquote_encoded:
  "unquote (concat (map encodeChar s) @ dq # rest) = Some (s, rest)"
  by (induction s) (simp_all add: unquote_encodeChar prepend_def)

lemma lex_punct:
  "lex (CHR ''{'' # r) = map_option (Cons TLBrace) (lex r)"
  "lex (CHR ''}'' # r) = map_option (Cons TRBrace) (lex r)"
  "lex (CHR ''['' # r) = map_option (Cons TLBracket) (lex r)"
  "lex (CHR '']'' # r) = map_option (Cons TRBracket) (lex r)"
  "lex (CHR '':'' # r) = map_option (Cons TColon) (lex r)"
  "lex (CHR '','' # r) = map_option (Cons TComma) (lex r)"
  by (simp_all add: lex.simps lexToken_def isSpace_def)

lemma lex_literal:
  "lex (''null'' @ r) = map_option (Cons TNull) (lex r)"
  "lex (''true'' @ r) = map_option (Cons TTrue) (lex r)"
  "lex (''false'' @ r) = map_option (Cons TFalse) (lex r)"
  by (simp_all add: lex.simps lexToken_def isSpace_def dq_def isDigit_def)

lemma lex_string: "lex (encodeString s @ r) = map_option (Cons (TString s)) (lex r)"
proof -
  have "dq \<noteq> CHR ''{''" "dq \<noteq> CHR ''}''" "dq \<noteq> CHR ''[''" "dq \<noteq> CHR '']''" "dq \<noteq> CHR '':''"
    "dq \<noteq> CHR '',''" "\<not> isSpace dq"
    by (simp_all add: dq_def isSpace_def)
  then show ?thesis
    by (simp add: lex.simps lexToken_def encodeString_def unquote_encoded)
qed

lemma lex_number:
  assumes "validLiteral n" and "\<not> startsNum r"
  shows "lex (n @ r) = map_option (Cons (TNumber n)) (lex r)"
proof -
  from assms(1) obtain c cs where n: "n = c # cs" and c: "c = CHR ''-'' \<or> isDigit c"
    and cs: "\<forall>d \<in> set cs. isNumChar d" and v: "validNumber (c # cs)"
    by (auto simp: validLiteral_def split: list.splits)
  have r: "takeWhile isNumChar r = []" "dropWhile isNumChar r = r"
    using assms(2) by (cases r; simp add: startsNum_def)+
  have tw: "takeWhile isNumChar (cs @ r) = cs" "dropWhile isNumChar (cs @ r) = r"
    using cs r by (simp_all add: takeWhile_append2 dropWhile_append2)
  have nc: "\<not> isSpace c" "c \<noteq> CHR ''{''" "c \<noteq> CHR ''}''" "c \<noteq> CHR ''[''" "c \<noteq> CHR '']''"
    "c \<noteq> CHR '':''" "c \<noteq> CHR '',''" "c \<noteq> dq"
    using c by (auto simp: isDigit_def isSpace_def dq_def)
  show ?thesis
    using c v nc by (simp add: lex.simps lexToken_def n tw)
qed

lemma lex_commaSep:
  assumes each: "\<And>x r. x \<in> set xs \<Longrightarrow> \<not> startsNum r \<Longrightarrow>
      lex (f x @ r) = map_option ((@) (g x)) (lex r)"
    and r: "\<not> startsNum r"
  shows "lex (commaSep (map f xs) @ r) = map_option ((@) (sepTokens (map g xs))) (lex r)"
  using each
proof (induction xs rule: induct_list012)
  case 1
  then show ?case by (simp add: option.map_ident)
next
  case (2 x)
  then show ?case using r by simp
next
  case (3 x y zs)
  have c: "\<not> startsNum (CHR '','' # commaSep (map f (y # zs)) @ r)"
    by (simp add: startsNum_def isNumChar_def isDigit_def)
  have "lex (commaSep (map f (y # zs)) @ r) = map_option ((@) (sepTokens (map g (y # zs)))) (lex r)"
    using 3 by simp
  then show ?case
    using "3.prems" [of x, OF _ c]
    by (simp add: lex_punct option.map_comp comp_def)
qed

lemma lex_marshalValue:
  "wellFormed v \<Longrightarrow> \<not> startsNum r \<Longrightarrow>
     lex (marshalValue v @ r) = map_option ((@) (tokens v)) (lex r)"
proof (induction v arbitrary: r)
  case JNull
  then show ?case using lex_literal(1) [of r] by simp
next
  case (JBool b)
  then show ?case using lex_literal(2,3) [of r] by simp
next
  case (JNumber n)
  then show ?case by (simp add: lex_number)
next
  case (JString s)
  then show ?case by (simp add: lex_string)
next
  case (JArray vs)
  have c: "\<not> startsNum (CHR '']'' # r)"
    by (simp add: startsNum_def isNumChar_def isDigit_def)
  have "lex (commaSep (map marshalValue vs) @ CHR '']'' # r) =
      map_option ((@) (sepTokens (map tokens vs))) (lex (CHR '']'' # r))"
    using JArray.IH JArray.prems(1) c by (intro lex_commaSep) auto
  then show ?case
    by (simp add: lex_punct option.map_comp comp_def)
next
  case (JObject kvs)
  have c: "\<not> startsNum (CHR ''}'' # r)"
    by (simp add: startsNum_def isNumChar_def isDigit_def)
  have "lex (commaSep (map (\<lambda>(k, v). encodeString k @ '':'' @ marshalValue v) kvs) @ CHR ''}'' # r) =
      map_option ((@) (sepTokens (map (\<lambda>(k, v). TString k # TColon # tokens v) kvs)))
        (lex (CHR ''}'' # r))"
  proof (rule lex_commaSep [OF _ c])
    fix x :: "string \<times> jvalue" and r'
    assume x: "x \<in> set kvs" and r': "\<not> startsNum r'"
    obtain k v where kv: "x = (k, v)" by (cases x)
    have "wellFormed v" using JObject.prems(1) x kv by auto
    then have "lex (marshalValue v @ r') = map_option ((@) (tokens v)) (lex r')"
      using JObject.IH [of x v r'] x kv r' by simp
    then show "lex ((case x of (k, v) \<Rightarrow> encodeString k @ '':'' @ marshalValue v) @ r') =
        map_option ((@) (case x of (k, v) \<Rightarrow> TString k # TColon # tokens v)) (lex r')"
      by (cases "lex r'") (simp_all add: kv lex_string lex_punct)
  qed
  then show ?case
    by (simp add: lex_punct option.map_comp comp_def)
qed

lemma run_append:
  "run s (ts @ us) = (case run s ts of None \<Rightarrow> None | Some s' \<Rightarrow> run s' us)"
  by (induction ts arbitrary: s) (auto split: option.splits)

lemma run_elements:
  assumes each: "\<And>v e st ts. v \<in> set vs \<Longrightarrow> beginValue e \<Longrightarrow>
      run (Scanning e st) (tokens v @ ts) = after v st ts"
    and "vs \<noteq> []" and "beginValue e"
  shows "run (Scanning e (InArray acc # st)) (sepTokens (map tokens vs) @ ts) =
     run (Scanning ExpCommaOrEnd (InArray (rev vs @ acc) # st)) ts"
  using assms
proof (induction vs arbitrary: e acc rule: induct_list012)
  case 1
  then show ?case by simp
next
  case (2 x)
  then show ?case by (simp add: after_def)
next
  case (3 x y zs)
  have "run (Scanning ExpValue (InArray (x # acc) # st)) (sepTokens (map tokens (y # zs)) @ ts) =
      run (Scanning ExpCommaOrEnd (InArray (rev (y # zs) @ x # acc) # st)) ts"
    using "3.prems"(1) by (intro "3.IH"(2)) (simp_all add: beginValue_def)
  moreover have "run (Scanning e (InArray acc # st))
      (tokens x @ TComma # sepTokens (map tokens (y # zs)) @ ts) =
      after x (InArray acc # st) (TComma # sepTokens (map tokens (y # zs)) @ ts)"
    using "3.prems" by simp
  ultimately show ?case
    by (simp add: after_def)
qed

lemma run_members:
  assumes each: "\<And>k v e st ts. (k, v) \<in> set kvs \<Longrightarrow> beginValue e \<Longrightarrow>
      run (Scanning e st) (tokens v @ ts) = after v st ts"
    and "kvs \<noteq> []" and "e = ExpKey \<or> e = ExpKeyOrEnd"
  shows "run (Scanning e (InObject acc None # st))
       (sepTokens (map (\<lambda>(k, v). TString k # TColon # tokens v) kvs) @ ts) =
     run (Scanning ExpCommaOrEnd (InObject (rev kvs @ acc) None # st)) ts"
  using assms
proof (induction kvs arbitrary: e acc rule: induct_list012)
  case 1
  then show ?case by simp
next
  case (2 x)
  obtain k v where x: "x = (k, v)" by (cases x)
  have "run (Scanning ExpValue (InObject acc (Some k) # st)) (tokens v @ ts) =
      after v (InObject acc (Some k) # st) ts"
    using "2.prems"(1) [of k v ExpValue] x by (simp add: beginValue_def)
  then show ?case
    using "2.prems"(3) by (auto simp: x after_def beginValue_def)
next
  case (3 x y zs)
  obtain k v where x: "x = (k, v)" by (cases x)
  let ?rest = "sepTokens (map (\<lambda>(k, v). TString k # TColon # tokens v) (y # zs)) @ ts"
  have "run (Scanning ExpKey (InObject (x # acc) None # st)) ?rest =
      run (Scanning ExpCommaOrEnd (InObject (rev (y # zs) @ x # acc) None # st)) ts"
  proof (rule "3.IH"(2))
    fix k v e st ts
    assume "(k, v) \<in> set (y # zs)" "beginValue e"
    then show "run (Scanning e st) (tokens v @ ts) = after v st ts"
      using "3.prems"(1) [of k v e st ts] by auto
  qed simp_all
  moreover have "run (Scanning ExpValue (InObject acc (Some k) # st)) (tokens v @ TComma # ?rest) =
      after v (InObject acc (Some k) # st) (TComma # ?rest)"
    using "3.prems"(1) [of k v ExpValue] x by (simp add: beginValue_def)
  ultimately show ?case
    using "3.prems"(3) by (auto simp: x after_def beginValue_def)
qed

lemma run_tokens:
  "beginValue e \<Longrightarrow> run (Scanning e st) (tokens v @ ts) = after v st ts"
proof (induction v arbitrary: e st ts)
  case (JArray vs)
  show ?case
  proof (cases "vs = []")
    case True
    then show ?thesis using JArray.prems by (simp add: after_def)
  next
    case False
    have "run (Scanning ExpValueOrEnd (InArray [] # st))
        (sepTokens (map tokens vs) @ TRBracket # ts) =
        run (Scanning ExpCommaOrEnd (InArray (rev vs @ []) # st)) (TRBracket # ts)"
      using JArray.IH False by (intro run_elements) (simp_all add: beginValue_def)
    then show ?thesis using JArray.prems by (simp add: after_def)
  qed
next
  case (JObject kvs)
  show ?case
  proof (cases "kvs = []")
    case True
    then show ?thesis using JObject.prems by (simp add: after_def)
  next
    case False
    have "run (Scanning ExpKeyOrEnd (InObject [] None # st))
        (sepTokens (map (\<lambda>(k, v). TString k # TColon # tokens v) kvs) @ TRBrace # ts) =
        run (Scanning ExpCommaOrEnd (InObject (rev kvs @ []) None # st)) (TRBrace # ts)"
    proof (rule run_members [OF _ False])
      fix k v e st ts
      assume "(k, v) \<in> set kvs" "beginValue e"
      then show "run (Scanning e st) (tokens v @ ts) = after v st ts"
        using JObject.IH [of "(k, v)" v e st ts] by simp
    qed simp
    then show ?thesis using JObject.prems by (simp add: after_def)
  qed
qed (simp_all add: after_def)

lemma parseJSON_marshalValue: "wellFormed v \<Longrightarrow> parseJSON (marshalValue v) = Some v"
proof -
  assume "wellFormed v"
  then have "lex (marshalValue v @ []) = map_option ((@) (tokens v)) (lex [])"
    by (intro lex_marshalValue) (simp_all add: startsNum_def)
  then have "lex (marshalValue v) = Some (tokens v)" by simp
  moreover have "run (Scanning ExpValue []) (tokens v @ []) = after v [] []"
    by (intro run_tokens) (simp add: beginValue_def)
  ultimately show ?thesis by (simp add: parseJSON_def after_def)
qed







lemma canonical_wellFormed: "canonical v \<Longrightarrow> wellFormed v"
  by (induction v) auto




lemma mapInsert_snoc:
  "\<forall>x \<in> set m. fst x < k \<Longrightarrow> mapInsert k v m = m @ [(k, v)]"
  by (induction m) auto

lemma mapStore_sorted:
  "sorted_wrt (<) (map fst (acc @ m)) \<Longrightarrow> mapStore acc m = acc @ m"
proof (induction m arbitrary: acc)
  case Nil
  then show ?case by (simp add: mapStore_def)
next
  case (Cons a m)
  obtain k v where a: "a = (k, v)" by (cases a)
  have lt: "\<forall>x \<in> set acc. fst x < k"
    using Cons.prems by (auto simp: a sorted_wrt_append)
  have "mapStore acc (a # m) = mapStore (mapInsert k v acc) m"
    by (simp add: mapStore_def a)
  also have "\<dots> = mapStore (acc @ [(k, v)]) m"
    using lt by (simp add: mapInsert_snoc)
  also have "\<dots> = (acc @ [(k, v)]) @ m"
    using Cons.prems by (intro Cons.IH) (simp add: a)
  finally show ?case by (simp add: a)
qed



lemma toInterface_id: "canonical v \<Longrightarrow> toInterface v = v"
proof (induction v)
  case (JArray vs)
  then show ?case by (simp add: map_idI)
next
  case (JObject kvs)
  have "map (\<lambda>(k, v). (k, toInterface v)) kvs = kvs"
    using JObject by (intro map_idI) fastforce
  moreover have "mapStore [] kvs = [] @ kvs"
    using JObject.prems by (intro mapStore_sorted) simp
  ultimately show ?case by simp
qed auto

lemma encodeString_keys:
  "encodeString ''name'' = dq # ''name'' @ [dq]"
  "encodeString ''data'' = dq # ''data'' @ [dq]"
  "encodeString ''Message'' = dq # ''Message'' @ [dq]"
  by (simp_all add: encodeString_def encodeChar_def bs_def dq_def)

lemma marshal_encodedEvent_value: "marshal_encodedEvent evt = marshalValue (eventValue evt)"
  by (simp add: marshal_encodedEvent_def eventValue_def marshalMap_def encodeString_keys dq_def
      split: option.split)

lemma marshal_encodedMessage_value: "marshal_encodedMessage msg = marshalValue (messageValue msg)"
  by (simp add: marshal_encodedMessage_def messageValue_def encodeString_keys dq_def)

lemma equalFold_keys:
  "equalFold ''name'' ''name''" "\<not> equalFold ''data'' ''name''" "equalFold ''data'' ''data''"
  "equalFold ''Message'' ''Message''"
  by (simp_all add: equalFold_def toLower_def less_eq_char_def)

lemma unmarshal_marshal_encodedMessage:
  "unmarshal_encodedMessage (marshal_encodedMessage \<lparr>Message = s\<rparr>) = Inr \<lparr>Message = s\<rparr>"
proof -
  have "parseJSON (marshalValue (messageValue \<lparr>Message = s\<rparr>)) = Some (messageValue \<lparr>Message = s\<rparr>)"
    by (intro parseJSON_marshalValue) (simp add: messageValue_def)
  then show ?thesis
    unfolding unmarshal_encodedMessage_def marshal_encodedMessage_value
    by (simp add: messageValue_def equalFold_keys)
qed

lemma unmarshal_marshal_encodedEvent:
  assumes "canonicalMap d"
  shows "unmarshal_encodedEvent (marshal_encodedEvent \<lparr>Name = n, Data = d\<rparr>) =
     Inr \<lparr>Name = n, Data = d\<rparr>"
proof -
  let ?evt = "\<lparr>Name = n, Data = d\<rparr>"
  have wf: "wellFormed (eventValue ?evt)"
    using assms canonical_wellFormed [of "JObject (the d)"]
    by (auto simp: eventValue_def canonicalMap_def split: option.splits)
  have p: "parseJSON (marshalValue (eventValue ?evt)) = Some (eventValue ?evt)"
    using wf by (rule parseJSON_marshalValue)
  show ?thesis
  proof (cases d)
    case None
    then show ?thesis
      unfolding unmarshal_encodedEvent_def marshal_encodedEvent_value p
      by (simp add: eventValue_def equalFold_keys)
  next
    case (Some m)
    have c: "canonical (JObject m)" using assms Some by (simp add: canonicalMap_def)
    have "toInterface (JObject m) = JObject m" using c by (rule toInterface_id)
    then have "mapStore [] (map (\<lambda>(k, v). (k, toInterface v)) m) = m" by simp
    then show ?thesis using Some
      unfolding unmarshal_encodedEvent_def marshal_encodedEvent_value p
      by (simp add: eventValue_def equalFold_keys)
  qed
qed



lemma EncodeEvent_parts:
  "EncodeEvent e =
     marshal_encodedMessage \<lparr>Message = marshal_encodedEvent \<lparr>Name = name e, Data = data e\<rparr>\<rparr>"
  by (simp add: EncodeEvent_def Let_def)

lemma decodeBody_EncodeEvent:
  assumes "msgBody m = Some (EncodeEvent e)" and "canonicalMap (data e)"
  shows "decodeBody e0 m = Returns (e0\<lparr>name := name e, data := data e\<rparr>)"
  using assms
  by (simp add: decodeBody_def aws_StringValue_def EncodeEvent_parts
      unmarshal_marshal_encodedMessage unmarshal_marshal_encodedEvent)





lemma test_body_EncodeEvent: "test_body = EncodeEvent test_event"
  unfolding test_event_def by code_simp

lemma Atoi_5: "Atoi ''5'' = Inr 5"
  by (simp add: Atoi_def digitsValue_def isDigit_def)

lemma DecodeEvent_test_message: "DecodeEvent test_message = Returns test_event"
proof -
  have c: "canonicalMap (data test_event)"
    by (simp add: test_event_def canonicalMap_def)
  have b: "msgBody test_message = Some (EncodeEvent test_event)"
    by (simp add: test_message_def test_body_EncodeEvent)
  have rh: "msgReceiptHandle test_message = Some ''Hello!''"
    and dd: "msgAttributes test_message ''DeduplicationID'' = Some ''1234''"
    and rc: "msgMessageAttributes test_message ''RetryCount'' =
      Some \<lparr>StringValue = Some ''5'', DataType = Some ''Number''\<rparr>"
    by (simp_all add: test_message_def)
  show ?thesis
    unfolding DecodeEvent_def rh dd rc
    by (simp add: Atoi_5 decodeBody_EncodeEvent [OF b c]) (simp add: test_event_def)
qed




text \<open>
  For a message whose pointers are set, \<^verbatim>\<open>DecodeEvent\<close> returns an error exactly when the
  retry count does not parse, the outer envelope does not decode or the inner document
  does not decode; the retry count of a decoded event is 0 without the attribute and the
  parsed integer with it.
\<close>

lemma DecodeEvent_Fails_iff:
  assumes rh: "msgReceiptHandle m = Some rh"
    and sv: "\<And>a. msgMessageAttributes m ''RetryCount'' = Some a \<Longrightarrow> StringValue a \<noteq> None"
  shows "(\<exists>err. DecodeEvent m = Fails err) \<longleftrightarrow>
     (\<exists>a s err. msgMessageAttributes m ''RetryCount'' = Some a \<and> StringValue a = Some s \<and>
        Atoi s = Inl err) \<or>
     (\<exists>err. unmarshal_encodedMessage (aws_StringValue (msgBody m)) = Inl err) \<or>
     (\<exists>msg err. unmarshal_encodedMessage (aws_StringValue (msgBody m)) = Inr msg \<and>
        unmarshal_encodedEvent (Message msg) = Inl err)"
proof (cases "msgMessageAttributes m ''RetryCount''")
  case None
  then show ?thesis
    using rh by (auto simp: DecodeEvent_def decodeBody_def Let_def split: sum.splits)
next
  case (Some a)
  then obtain s where s: "StringValue a = Some s" using sv by blast
  show ?thesis
  proof (cases "Atoi s")
    case (Inl err)
    then show ?thesis using rh Some s by (auto simp: DecodeEvent_def)
  next
    case (Inr rc)
    then show ?thesis
      using rh Some s
      by (auto simp: DecodeEvent_def decodeBody_def Let_def split: sum.splits)
  qed
qed

lemma DecodeEvent_retryCount:
  assumes "DecodeEvent m = Returns event"
  shows "(msgMessageAttributes m ''RetryCount'' = None \<longrightarrow> retryCount event = 0) \<and>
     (\<forall>a. msgMessageAttributes m ''RetryCount'' = Some a \<longrightarrow>
        (\<exists>s. StringValue a = Some s \<and> Atoi s = Inr (retryCount event)))"
  using assms
  by (auto simp: DecodeEvent_def decodeBody_def Let_def split: option.splits sum.splits)

lemma parseJSON_not_json: "parseJSON ''not json'' = None"
  by (simp add: parseJSON_def lex.simps lexToken_def isSpace_def dq_def isDigit_def)

text \<open>
  C4. For the messages whose pointers are set, the error cases are exactly the three of
  the claim (\<open>DecodeEvent_Fails_iff\<close>) and the retry count is as claimed
  (\<open>DecodeEvent_retryCount\<close>). A message whose \<^verbatim>\<open>RetryCount\<close> attribute has no string value
  (an attribute of data type \<^verbatim>\<open>Binary\<close>) is not answered with an error: the nil pointer is
  dereferenced and \<^verbatim>\<open>DecodeEvent\<close> panics, here with a body that is not JSON either.
\<close>

theorem DecodeEvent_panics_on_binary_RetryCount:
  "msgMessageAttributes binary_retry_message ''RetryCount'' =
     Some \<lparr>StringValue = None, DataType = Some ''Binary''\<rparr> \<and>
   unmarshal_encodedMessage (aws_StringValue (msgBody binary_retry_message)) = Inl SyntaxError \<and>
   DecodeEvent binary_retry_message = Panics"
  by (simp add: binary_retry_message_def DecodeEvent_def aws_StringValue_def
      unmarshal_encodedMessage_def parseJSON_not_json)







lemma Stop_effects:
  assumes "stop s = StopNotCalled" and "buf (doneCh s) = []" and "cap (doneCh s) = 1"
    and "\<not> closed (doneCh s)"
  shows "\<exists>s1 s2 s3. stopNext s = [s1] \<and> stopNext s1 = [s2] \<and> stopNext s2 = [s3] \<and>
     stop s3 = StopReturned \<and> closed (eventsCh s3) \<and> closed (errorsCh s3) \<and>
     buf (doneCh s3) = [True] \<and> poll s3 = poll s"
  using assms by (simp add: stopNext_def chan_send_def chan_close_def)

text \<open>
  C9. \<^verbatim>\<open>Stop\<close> closes both channels and puts the signal on \<^verbatim>\<open>done\<close> (\<open>Stop_effects\<close>). It does
  so while the polling goroutine may be past its \<^verbatim>\<open>select\<close>, waiting in \<^verbatim>\<open>ReceiveMessage\<close>:
  in the run below \<^verbatim>\<open>Stop\<close> has returned, both channels are closed, and the goroutine then
  sends the decoded event on the closed event channel and panics.
\<close>

theorem poll_sends_on_closed_channel_after_Stop:
  "follows (psysNext False) panicRun \<and> hd panicRun = afterStart [Inr [test_message]] \<and>
   (\<exists>before event after. panicRun = before @ [event, after] \<and>
      stop event = StopReturned \<and> closed (eventsCh event) \<and> closed (errorsCh event) \<and>
      poll event = SendEvent test_event [] \<and> poll after = PollPanicked)"
proof -
  have run: "follows (psysNext False) panicRun"
    by (simp add: panicRun_def Let_def psysNext_def pollNext_def stopNext_def afterStart_def
        make_chan_def chan_send_def chan_close_def DecodeEvent_test_message)
  have "\<exists>before event after. panicRun = before @ [event, after] \<and>
      stop event = StopReturned \<and> closed (eventsCh event) \<and> closed (errorsCh event) \<and>
      poll event = SendEvent test_event [] \<and> poll after = PollPanicked"
    by (rule exI [of _ "take 6 panicRun"], rule exI [of _ "panicRun ! 6"],
        rule exI [of _ "panicRun ! 7"])
      (simp add: panicRun_def Let_def afterStart_def make_chan_def chan_close_def)
  with run show ?thesis by (simp add: panicRun_def Let_def)
qed

lemma DecodeEvent_bad_message: "DecodeEvent bad_message = Fails SyntaxError"
proof -
  have "msgReceiptHandle bad_message = Some ''Hello!''"
    and "msgMessageAttributes bad_message ''RetryCount'' =
      Some \<lparr>StringValue = Some ''5'', DataType = Some ''Number''\<rparr>"
    and "msgBody bad_message = Some ''not json''"
    by (simp_all add: bad_message_def test_message_def)
  then show ?thesis
    by (simp add: DecodeEvent_def Atoi_5 decodeBody_def aws_StringValue_def
        unmarshal_encodedMessage_def parseJSON_not_json)
qed

text \<open>
  In the loop of \<^verbatim>\<open>part_001\<close> an error that is sent is followed by the next iteration: of
  the outer loop after a receive error, of the batch after a decode error. The send
  itself waits while the error channel, of capacity 1, is full.
\<close>

lemma pollNext_receive_error_continues:
  assumes "poll s = SendReceiveError err" and "\<not> closed (errorsCh s)"
    and "length (buf (errorsCh s)) < cap (errorsCh s)"
  shows "pollNext False s =
     [s\<lparr>errorsCh := (errorsCh s)\<lparr>buf := buf (errorsCh s) @ [err]\<rparr>, poll := AtSelect\<rparr>]"
  using assms by (simp add: pollNext_def sendError_def chan_send_def)

lemma pollNext_decode_error_continues:
  assumes "poll s = SendDecodeError err msgs" and "\<not> closed (errorsCh s)"
    and "length (buf (errorsCh s)) < cap (errorsCh s)"
  shows "pollNext False s =
     [s\<lparr>errorsCh := (errorsCh s)\<lparr>buf := buf (errorsCh s) @ [err]\<rparr>, poll := AtRange msgs\<rparr>]"
  using assms by (simp add: pollNext_def sendError_def chan_send_def)

lemma pollNext_error_waits:
  assumes "poll s = SendDecodeError err msgs \<or> poll s = SendReceiveError err"
    and "\<not> closed (errorsCh s)" and "length (buf (errorsCh s)) = cap (errorsCh s)"
  shows "pollNext returnsOnError s = []"
  using assms by (auto simp: pollNext_def sendError_def chan_send_def)

lemma current_loop_delivers_after_decode_error:
  "follows (psysNext False) currentDecodeRun \<and>
   hd currentDecodeRun = afterStart [Inr [bad_message, test_message]] \<and>
   buf (eventsCh (last currentDecodeRun)) = [test_event] \<and>
   buf (errorsCh (last currentDecodeRun)) = [SyntaxError] \<and>
   poll (last currentDecodeRun) = AtSelect"
  by (simp add: currentDecodeRun_def Let_def psysNext_def pollNext_def sendError_def
      afterStart_def make_chan_def chan_send_def DecodeEvent_test_message DecodeEvent_bad_message)

text \<open>
  C7. The loop of \<^verbatim>\<open>part_001\<close> goes on after an error (the lemmas above). The loop of
  \<^verbatim>\<open>sqs/provider.go\<close> returns: after one receive error the goroutine has returned and the
  batch the queue would answer next is never fetched; after the decode error of the first
  message of a batch it has returned and the well-formed second message is not delivered.
\<close>

theorem legacy_loop_returns_on_error:
  "follows (psysNext True) legacyReceiveRun \<and>
   hd legacyReceiveRun = afterStart [Inl (RemoteError ''timeout''), Inr [test_message]] \<and>
   poll (last legacyReceiveRun) = PollReturned \<and>
   remote (last legacyReceiveRun) = [Inr [test_message]] \<and>
   pollNext True (last legacyReceiveRun) = [] \<and>
   follows (psysNext True) legacyDecodeRun \<and>
   hd legacyDecodeRun = afterStart [Inr [bad_message, test_message]] \<and>
   poll (last legacyDecodeRun) = PollReturned \<and>
   buf (eventsCh (last legacyDecodeRun)) = [] \<and>
   pollNext True (last legacyDecodeRun) = []"
  by (simp add: legacyReceiveRun_def legacyDecodeRun_def Let_def psysNext_def pollNext_def
      sendError_def afterStart_def make_chan_def chan_send_def DecodeEvent_bad_message)

theorem legacy_loop_returns_on_error_witness:
  "poll (last legacyReceiveRun) = PollReturned \<and> poll (last legacyDecodeRun) = PollReturned \<and>
   buf (eventsCh (last legacyDecodeRun)) = []"
  using legacy_loop_returns_on_error by blast

theorem poll_sends_on_closed_channel_after_Stop_witness:
  "follows (psysNext False) panicRun \<and> stop (panicRun ! 6) = StopReturned \<and> poll (panicRun ! 7) = PollPanicked"
proof -
  have "stop (panicRun ! 6) = StopReturned" "poll (panicRun ! 7) = PollPanicked"
    by (simp_all add: panicRun_def Let_def)
  then show ?thesis using poll_sends_on_closed_channel_after_Stop by blast
qed

lemma sum_live_update:
  "g < length gs \<Longrightarrow> sum_list (map live (gs[g := x])) + live (gs ! g) = sum_list (map live gs) + live x"
proof (induction gs arbitrary: g)
  case Nil
  then show ?case by simp
next
  case (Cons a gs)
  then show ?case by (cases g) auto
qed

lemma active_update:
  "g < length (goroutines s) \<Longrightarrow>
     active (s\<lparr>goroutines := (goroutines s)[g := x]\<rparr>) + live (goroutines s ! g) = active s + live x"
  by (simp add: active_def sum_live_update)

lemma listenInv_start: "listenInv l (listenStart evs)"
  by (simp add: listenInv_def listenStart_def active_def budget_def)

lemma listenInv_sup: "listenInv l s \<Longrightarrow> s' \<in> set (supNext l s) \<Longrightarrow> listenInv l s'"
  by (cases "supPc s")
    (auto simp: listenInv_def supNext_def active_def budget_def split: if_splits)

lemma listenInv_worker:
  assumes "listenInv l s" and "g < length (goroutines s)" and "s' \<in> set (workerNext l s g)"
  shows "listenInv l s'"
proof -
  have b: "budget l (s\<lparr>goroutines := gs, workers := w, workerDone := d, stream := st, taken := t\<rparr>) =
      budget l s" for gs w d st t
    by (simp add: budget_def)
  show ?thesis
  proof (cases "goroutines s ! g")
    case Spawned
    with assms active_update [OF assms(2), of InWorker] show ?thesis
      by (auto simp: listenInv_def workerNext_def budget_def active_def)
  next
    case InWorker
    with assms active_update [OF assms(2), of Signalling] active_update [OF assms(2), of LeftWorker]
    show ?thesis
      by (auto simp: listenInv_def workerNext_def budget_def active_def
          split: list.splits prod.splits option.splits if_splits)
  next
    case Signalling
    with assms active_update [OF assms(2), of LeftWorker] show ?thesis
      by (auto simp: listenInv_def workerNext_def budget_def active_def split: if_splits)
  next
    case LeftWorker
    with assms active_update [OF assms(2), of Exited] show ?thesis
      by (auto simp: listenInv_def workerNext_def budget_def active_def)
  next
    case Exited
    with assms show ?thesis by (simp add: workerNext_def)
  qed
qed

lemma listenInv_env: "listenInv l s \<Longrightarrow> s' \<in> set (envNext s) \<Longrightarrow> listenInv l s'"
  by (auto simp: listenInv_def envNext_def active_def budget_def split: list.splits if_splits)

lemma listenInv_step: "listenInv l s \<Longrightarrow> s' \<in> set (listenNext l s) \<Longrightarrow> listenInv l s'"
  by (auto simp: listenNext_def dest: listenInv_sup listenInv_worker listenInv_env)

lemma listenInv_reaches: "reaches (listenNext l) (listenStart evs) s \<Longrightarrow> listenInv l s"
  by (induction rule: reaches.induct) (auto intro: listenInv_start listenInv_step)

lemma capacity_lst: "capacity lst = 4"
  by (simp add: capacity_def lst_def)

lemma capacity_noHandlers: "capacity noHandlers = 0"
  by (simp add: capacity_def noHandlers_def)

lemma follows_reaches: "follows nxt (s0 # ss) \<Longrightarrow> s \<in> set (s0 # ss) \<Longrightarrow> reaches nxt s0 s"
proof (induction ss arbitrary: s rule: rev_induct)
  case Nil
  then show ?case by (simp add: reaches.start)
next
  case (snoc x xs)
  have f: "follows nxt (s0 # xs)" and l: "x \<in> set (nxt (last (s0 # xs)))"
    using snoc.prems(1)
  proof (induction xs arbitrary: s0)
    case Nil
    { case 1 show ?case by simp }
    { case 2 then show ?case by simp }
  next
    case (Cons a xs)
    { case 1 then show ?case using Cons.IH(1) [of a] by simp }
    { case 2 then show ?case using Cons.IH(2) [of a] by simp }
  qed
  show ?case
  proof (cases "s = x")
    case True
    have "reaches nxt s0 (last (s0 # xs))" using f by (intro snoc.IH) simp_all
    then show ?thesis using l True by (auto intro: reaches.step)
  next
    case False
    then show ?thesis using snoc.prems(2) f by (intro snoc.IH) auto
  qed
qed

lemma in_listenNext_sup: "s' \<in> set (supNext l s) \<Longrightarrow> s' \<in> set (listenNext l s)"
  by (simp add: listenNext_def)

lemma in_listenNext_worker:
  "g < length (goroutines s) \<Longrightarrow> s' \<in> set (workerNext l s g) \<Longrightarrow> s' \<in> set (listenNext l s)"
  by (auto simp: listenNext_def)

lemma in_listenNext_env: "s' \<in> set (envNext s) \<Longrightarrow> s' \<in> set (listenNext l s)"
  by (simp add: listenNext_def)

lemma follows_raceRun: "follows (listenNext lst) raceRun"
  unfolding raceRun_def Let_def follows.simps
  apply (intro conjI TrueI)
  subgoal by (rule in_listenNext_sup) (simp add: supNext_def listenStart_def capacity_lst)
  subgoal by (rule in_listenNext_sup) (simp add: supNext_def listenStart_def capacity_lst)
  subgoal by (rule in_listenNext_sup) (simp add: supNext_def listenStart_def capacity_lst)
  subgoal by (rule in_listenNext_sup) (simp add: supNext_def listenStart_def capacity_lst)
  subgoal by (rule in_listenNext_sup) (simp add: supNext_def listenStart_def capacity_lst)
  subgoal by (rule in_listenNext_worker [of 0]) (simp_all add: workerNext_def listenStart_def)
  subgoal by (rule in_listenNext_worker [of 1]) (simp_all add: workerNext_def listenStart_def)
  subgoal by (rule in_listenNext_worker [of 2]) (simp_all add: workerNext_def listenStart_def)
  subgoal by (rule in_listenNext_worker [of 3]) (simp_all add: workerNext_def listenStart_def)
  subgoal by (rule in_listenNext_env) (simp add: envNext_def listenStart_def)
  subgoal by (rule in_listenNext_worker [of 0])
      (simp_all add: workerNext_def listenStart_def handleEvent_lst_a)
  subgoal by (rule in_listenNext_worker [of 0])
      (simp_all add: workerNext_def listenStart_def capacity_lst)
  subgoal by (rule in_listenNext_sup) (simp add: supNext_def listenStart_def capacity_lst)
  subgoal by (rule in_listenNext_worker [of 0]) (simp_all add: workerNext_def listenStart_def)
  done

lemma follows_zeroRun: "follows (listenNext noHandlers) zeroRun"
  unfolding zeroRun_def Let_def follows.simps
  apply (intro conjI TrueI)
  subgoal by (rule in_listenNext_sup) (simp add: supNext_def listenStart_def capacity_noHandlers)
  subgoal by (rule in_listenNext_env) (simp add: envNext_def listenStart_def)
  done

lemma zero_capacity:
  assumes "capacity l = 0" and "reaches (listenNext l) (listenStart evs) s"
  shows "goroutines s = [] \<and> workerDone s = 0 \<and> taken s = 0"
  using assms(2)
proof (induction rule: reaches.induct)
  case start
  then show ?case by (simp add: listenStart_def)
next
  case (step s s')
  then show ?case
    using assms(1)
    by (cases "supPc s")
      (auto simp: listenNext_def supNext_def envNext_def split: if_splits list.splits)
qed

text \<open>
  Once the launch loop is over, a step never increases the number of live workers plus
  waiting signals: a signal taken by the supervisor while the counter is not below \<open>max\<close>
  is a worker lost for good.
\<close>

lemma pool_step_not_growing:
  assumes "\<forall>i. supPc s \<noteq> Launching i" and "s' \<in> set (listenNext l s)"
  shows "active s' + workerDone s' \<le> active s + workerDone s \<and> (\<forall>i. supPc s' \<noteq> Launching i)"
proof -
  consider (sup) "s' \<in> set (supNext l s)"
    | (worker) g where "g < length (goroutines s)" "s' \<in> set (workerNext l s g)"
    | (env) "s' \<in> set (envNext s)"
    using assms(2) by (auto simp: listenNext_def)
  then show ?thesis
  proof cases
    case sup
    then show ?thesis using assms(1)
      by (cases "supPc s") (auto simp: supNext_def active_def split: if_splits)
  next
    case (worker g)
    show ?thesis
    proof (cases "goroutines s ! g")
      case Spawned
      with worker assms(1) active_update [OF worker(1), of InWorker] show ?thesis
        by (auto simp: workerNext_def active_def)
    next
      case InWorker
      with worker assms(1) active_update [OF worker(1), of Signalling]
        active_update [OF worker(1), of LeftWorker]
      show ?thesis
        by (auto simp: workerNext_def active_def
            split: list.splits prod.splits option.splits if_splits)
    next
      case Signalling
      with worker assms(1) active_update [OF worker(1), of LeftWorker] show ?thesis
        by (auto simp: workerNext_def active_def split: if_splits)
    next
      case LeftWorker
      with worker assms(1) active_update [OF worker(1), of Exited] show ?thesis
        by (auto simp: workerNext_def active_def)
    next
      case Exited
      with worker show ?thesis by (simp add: workerNext_def)
    qed
  next
    case env
    then show ?thesis using assms(1)
      by (auto simp: envNext_def active_def split: list.splits if_splits)
  qed
qed

lemma pool_never_grows:
  assumes "reaches (listenNext l) s s'" and "\<forall>i. supPc s \<noteq> Launching i"
  shows "active s' + workerDone s' \<le> active s + workerDone s \<and> (\<forall>i. supPc s' \<noteq> Launching i)"
  using assms
proof (induction rule: reaches.induct)
  case start
  then show ?case by simp
next
  case (step t t')
  then show ?case using pool_step_not_growing [of t t' l] by fastforce
qed

text \<open>
  C6. While \<^verbatim>\<open>Listen\<close> runs, the workers that are about to enter the worker loop, in it, or
  about to signal, together with the signals waiting on \<^verbatim>\<open>workerDone\<close>, number at most
  four times the number of registered event names, so that the buffered send of a signal
  never waits. The launch loop launches one worker per round up to that number. With no
  handler there is never a worker and no event is taken from the stream. On a signal the
  supervisor launches one worker when the counter \<^verbatim>\<open>workers\<close> is below that number, and
  none otherwise.
\<close>

theorem Listen_pool_bounded:
  assumes "reaches (listenNext l) (listenStart evs) s"
  shows "active s + workerDone s \<le> capacity l \<and>
     (\<forall>i. supPc s = Launching i \<longrightarrow>
        length (goroutines s) = i \<and> i \<le> capacity l \<and>
        supNext l s =
          [if i < capacity l
           then s\<lparr>goroutines := goroutines s @ [Spawned], supPc := Launching (i + 1)\<rparr>
           else s\<lparr>supPc := Supervising\<rparr>]) \<and>
     (capacity l = 0 \<longrightarrow> goroutines s = [] \<and> taken s = 0) \<and>
     (supPc s = Supervising \<longrightarrow> \<not> halt s \<longrightarrow> 0 < workerDone s \<longrightarrow>
        supNext l s =
          [if workers s < int (capacity l)
           then s\<lparr>workerDone := workerDone s - 1, goroutines := goroutines s @ [Spawned]\<rparr>
           else s\<lparr>workerDone := workerDone s - 1\<rparr>])"
proof -
  have inv: "listenInv l s" using assms by (rule listenInv_reaches)
  have "active s + workerDone s \<le> capacity l"
    using inv by (simp add: listenInv_def)
  moreover have "length (goroutines s) = i \<and> i \<le> capacity l \<and>
        supNext l s =
          [if i < capacity l
           then s\<lparr>goroutines := goroutines s @ [Spawned], supPc := Launching (i + 1)\<rparr>
           else s\<lparr>supPc := Supervising\<rparr>]"
    if "supPc s = Launching i" for i
    using inv that by (simp add: listenInv_def budget_def supNext_def)
  moreover have "goroutines s = [] \<and> taken s = 0" if "capacity l = 0"
    using zero_capacity [OF that assms] by simp
  moreover have "supNext l s =
          [if workers s < int (capacity l)
           then s\<lparr>workerDone := workerDone s - 1, goroutines := goroutines s @ [Spawned]\<rparr>
           else s\<lparr>workerDone := workerDone s - 1\<rparr>]"
    if "supPc s = Supervising" "\<not> halt s" "0 < workerDone s"
    using that by (simp add: supNext_def)
  ultimately show ?thesis by blast
qed

theorem Listen_pool_bounded_witness:
  "reaches (listenNext lst) (listenStart [anEvent ''a'' 3]) (raceRun ! 12) \<and>
   supPc (raceRun ! 12) = Supervising \<and> \<not> halt (raceRun ! 12) \<and> workerDone (raceRun ! 12) = 1 \<and>
   active (raceRun ! 12) + workerDone (raceRun ! 12) \<le> capacity lst \<and>
   supNext lst (raceRun ! 12) = [raceRun ! 13]"
proof -
  have "follows (listenNext lst) (listenStart [anEvent ''a'' 3] # tl raceRun)"
    using follows_raceRun by (simp add: raceRun_def Let_def)
  moreover have "raceRun ! 12 \<in> set (listenStart [anEvent ''a'' 3] # tl raceRun)"
    by (simp add: raceRun_def Let_def)
  ultimately have r: "reaches (listenNext lst) (listenStart [anEvent ''a'' 3]) (raceRun ! 12)"
    by (rule follows_reaches)
  have f: "supPc (raceRun ! 12) = Supervising" "\<not> halt (raceRun ! 12)"
    "workerDone (raceRun ! 12) = 1" "workers (raceRun ! 12) = 4"
    by (simp_all add: raceRun_def Let_def listenStart_def)
  have n: "(raceRun ! 12)\<lparr>workerDone := workerDone (raceRun ! 12) - 1\<rparr> = raceRun ! 13"
    by (simp add: raceRun_def Let_def listenStart_def)
  from Listen_pool_bounded [OF r] f n show ?thesis
    using r by (simp add: capacity_lst)
qed

text \<open>
  Two runs of \<^verbatim>\<open>Listen\<close>. In the first, with one registered name (capacity 4), a worker
  signals after a handler failure, the supervisor takes the signal while the counter still
  reads 4 and launches nothing, and the worker then decrements the counter: three workers
  are left, no signal waits, and the supervisor has no step. In the second, with no
  handler, the event that arrived stays in the stream: there is no worker to take it.
\<close>

theorem Listen_pool_not_restored:
  "follows (listenNext lst) raceRun \<and> hd raceRun = listenStart [anEvent ''a'' 3] \<and>
   capacity lst = 4 \<and> active (last raceRun) = 3 \<and> \<not> halt (last raceRun) \<and>
   workerDone (last raceRun) = 0 \<and> supNext lst (last raceRun) = [] \<and>
   follows (listenNext noHandlers) zeroRun \<and> hd zeroRun = listenStart [anEvent ''a'' 0] \<and>
   stream (last zeroRun) = [anEvent ''a'' 0] \<and> goroutines (last zeroRun) = [] \<and>
   supNext noHandlers (last zeroRun) = []"
  using follows_raceRun follows_zeroRun
  by (simp add: capacity_lst)
    (simp add: raceRun_def zeroRun_def Let_def listenStart_def active_def supNext_def)

end
